theory Spec2Isabelle
  imports Main "HOL-Library.AList"
begin

section \<open>The markup translator (\<^verbatim>\<open>processComment\<close>, sync.ts lines 334-382)\<close>

text \<open>
  A JavaScript string is a sequence of code units; one \<^typ>\<open>char\<close> stands for one code
  unit. The source is
  \<^verbatim>\<open>
  comment = comment.replaceAll('\n', '\n</br>')
  comment = comment.replaceAll(/\[(\/?[^[\]]+)]/gi, (text, args) => { ... })
  \<close>
\<close>

definition newline :: char where
  "newline = CHR 0x0A"

definition dquote :: char where
  "dquote = CHR 0x22"

text \<open>\<^verbatim>\<open>comment.replaceAll('\n', '\n</br>')\<close>: every newline is followed by the break tag.\<close>

definition replaceNewlines :: "string \<Rightarrow> string" where
  "replaceNewlines s = concat (map (\<lambda>c. if c = newline then newline # ''</br>'' else [c]) s)"

text \<open>\<^verbatim>\<open>s.startsWith(p)\<close>, \<^verbatim>\<open>s.includes(p)\<close> and \<^verbatim>\<open>s.substring(n)\<close>.\<close>

definition startsWith :: "string \<Rightarrow> string \<Rightarrow> bool" where
  "startsWith s p = (take (length p) s = p)"

fun includesStr :: "string \<Rightarrow> string \<Rightarrow> bool" where
  "includesStr [] p = (p = [])"
| "includesStr (c # cs) p = (startsWith (c # cs) p \<or> includesStr cs p)"

definition substring :: "nat \<Rightarrow> string \<Rightarrow> string" where
  "substring n s = drop n s"

text \<open>The callback of the second \<^verbatim>\<open>replaceAll\<close> (lines 336-380), on the captured group.\<close>

definition replaceTag :: "string \<Rightarrow> string" where
  "replaceTag args =
    (if startsWith args ''/URL'' then ''</a>''
     else if startsWith args ''URL='' then ''<a href='' @ [dquote] @ substring 4 args @ [dquote] @ ''>''
     else if includesStr args ''/FONT'' then ''</span>''
     else if includesStr args ''FONT'' then ''<span style='' @ [dquote] @ ''font: '' @ substring 4 args @ '';'' @ [dquote] @ ''>''
     else if includesStr args ''/SIZE'' then ''</span>''
     else if includesStr args ''SIZE'' then ''<span style='' @ [dquote] @ ''font-size: '' @ substring 4 args @ '';'' @ [dquote] @ ''>''
     else if includesStr args ''/COLOR'' then ''</span>''
     else if includesStr args ''COLOR'' then ''<span style='' @ [dquote] @ ''color: '' @ substring 5 args @ '';'' @ [dquote] @ ''>''
     else if includesStr args ''/IMG'' then [dquote] @ ''/>''
     else if includesStr args ''IMG'' then ''<img '' @ substring 3 args @ '' src='' @ [dquote]
     else if includesStr args ''/TABLE'' then ''</table>''
     else if includesStr args ''TABLE'' then ''<table>''
     else ''<'' @ args @ ''>'')"

text \<open>
  The regular expression \<^verbatim>\<open>\[(\/?[^[\]]+)]\<close>. After the opening bracket the group is
  an optional slash and then one or more characters other than the two brackets, and a
  closing bracket must follow. The slash is itself a non-bracket character, so with
  backtracking the group is the longest run of non-bracket characters, which must be
  non-empty and be followed by the closing bracket. \<open>matchTag\<close> is the match attempted
  right after an opening bracket: the captured group and the text after the match.
\<close>

definition notBracket :: "char \<Rightarrow> bool" where
  "notBracket c = (c \<noteq> CHR ''['' \<and> c \<noteq> CHR '']'')"

definition matchTag :: "string \<Rightarrow> (string \<times> string) option" where
  "matchTag s =
    (let args = takeWhile notBracket s; rest = dropWhile notBracket s
     in case rest of
          [] \<Rightarrow> None
        | r # rest' \<Rightarrow> if args \<noteq> [] \<and> r = CHR '']'' then Some (args, rest') else None)"

text \<open>The global replace: matches are found left to right and do not overlap.\<close>

function rewriteTags :: "string \<Rightarrow> string" where
  "rewriteTags [] = []"
| "rewriteTags (c # s) =
    (if c = CHR ''[''
     then (case matchTag s of
             Some (args, rest) \<Rightarrow> replaceTag args @ rewriteTags rest
           | None \<Rightarrow> c # rewriteTags s)
     else c # rewriteTags s)"
  by pat_completeness auto
termination
proof (relation "measure length", goal_cases)
  case 1
  show ?case by simp
next
  case (2 c s)
  show ?case by simp
next
  case (3 c s p args rest)
  then have "matchTag s = Some (args, rest)" by simp
  then obtain r where "dropWhile notBracket s = r # rest"
    by (auto simp: matchTag_def Let_def split: list.splits if_splits)
  then have "Suc (length rest) = length (dropWhile notBracket s)" by simp
  also have "\<dots> \<le> length s" by (rule length_dropWhile_le)
  finally show ?case by simp
next
  case (4 c s)
  show ?case by simp
qed

definition processComment :: "string \<Rightarrow> string" where
  "processComment comment = rewriteTags (replaceNewlines comment)"

text \<open>A tag content that none of the rules of the callback recognises.\<close>

definition recognized :: "string \<Rightarrow> bool" where
  "recognized args =
    (startsWith args ''/URL'' \<or> startsWith args ''URL='' \<or>
     includesStr args ''/FONT'' \<or> includesStr args ''FONT'' \<or>
     includesStr args ''/SIZE'' \<or> includesStr args ''SIZE'' \<or>
     includesStr args ''/COLOR'' \<or> includesStr args ''COLOR'' \<or>
     includesStr args ''/IMG'' \<or> includesStr args ''IMG'' \<or>
     includesStr args ''/TABLE'' \<or> includesStr args ''TABLE'')"

section \<open>Values and documents\<close>

text \<open>
  A JavaScript value. Numbers are the integers the program handles (timestamps, sizes,
  counters). A document, an update and a mixin's data are objects: a list of entries with
  distinct keys, in the order of \<^verbatim>\<open>Object.entries\<close>.
\<close>

datatype jvalue =
    JUndefined
  | JNull
  | JBool bool
  | JNum int
  | JStr string
  | JArr "jvalue list"
  | JObj "(string \<times> jvalue) list"

type_synonym obj = "(string \<times> jvalue) list"

text \<open>\<^verbatim>\<open>o[k]\<close>, \<^verbatim>\<open>o[k] = v\<close> and the rest of a destructuring without \<open>k\<close>.\<close>

definition getField :: "obj \<Rightarrow> string \<Rightarrow> jvalue" where
  "getField d k = (case map_of d k of None \<Rightarrow> JUndefined | Some v \<Rightarrow> v)"

definition setField :: "string \<Rightarrow> jvalue \<Rightarrow> obj \<Rightarrow> obj" where
  "setField k v d = AList.update k v d"

definition deleteField :: "string \<Rightarrow> obj \<Rightarrow> obj" where
  "deleteField k d = AList.delete k d"

text \<open>
  \<^verbatim>\<open>deepEqual\<close> of the fast-equals package compares by structure, never by reference.
  Two arrays are equal when they have the same length and equal elements, index by index;
  two plain objects when they have the same keys, in any order, and equal values under
  each key; any other two values when they are the same primitive value.
\<close>

function (sequential) deepEqual :: "jvalue \<Rightarrow> jvalue \<Rightarrow> bool" where
  "deepEqual (JArr xs) (JArr ys) = list_all2 deepEqual xs ys"
| "deepEqual (JObj a) (JObj b) =
    (set (map fst a) = set (map fst b) \<and>
     (\<forall>k\<in>set (map fst a).
        case map_of a k of
          None \<Rightarrow> False
        | Some v \<Rightarrow> (case map_of b k of None \<Rightarrow> False | Some v' \<Rightarrow> deepEqual v v')))"
| "deepEqual a b = (a = b)"
  by pat_completeness auto
termination
proof (relation "measure (\<lambda>p. size (fst p))", goal_cases)
  case 1
  show ?case by simp
next
  case (2 xs ys z yb)
  then show ?case by (simp add: less_Suc_eq_le size_list_estimation')
next
  case (3 a b k v v')
  have "map_of c k = Some v \<Longrightarrow> size v < Suc (size_list (size_prod (\<lambda>x. 0) size) c)"
    for c :: "(string \<times> jvalue) list"
    by (induction c) (auto split: if_splits)
  with 3 show ?case by simp
qed

text \<open>
  \<^verbatim>\<open>v != null\<close> is false for both \<^verbatim>\<open>null\<close> and \<^verbatim>\<open>undefined\<close>. \<^verbatim>\<open>a === b\<close> compares
  primitive values; two objects or arrays that come from different sources are never the
  same reference.
\<close>

definition isNullish :: "jvalue \<Rightarrow> bool" where
  "isNullish v = (v = JNull \<or> v = JUndefined)"

definition strictEq :: "jvalue \<Rightarrow> jvalue \<Rightarrow> bool" where
  "strictEq a b = (case a of JArr _ \<Rightarrow> False | JObj _ \<Rightarrow> False | _ \<Rightarrow> a = b)"

section \<open>The field diff of \<^verbatim>\<open>updateDoc\<close> and \<^verbatim>\<open>updateMixin\<close> (lines 41-87)\<close>

definition excludedKeys :: "string list" where
  "excludedKeys =
    [''_class'', ''_id'', ''modifiedBy'', ''modifiedOn'', ''space'', ''attachedTo'', ''attachedToClass'']"

text \<open>
  The loop of lines 44-52 and 74-82 over \<^verbatim>\<open>Object.entries(raw)\<close>. The first argument
  reads \<^verbatim>\<open>doc[k]\<close>; the last is \<^verbatim>\<open>documentUpdate\<close>, built up entry by entry.
\<close>

fun diffFields :: "(string \<Rightarrow> jvalue) \<Rightarrow> obj \<Rightarrow> obj \<Rightarrow> obj" where
  "diffFields dv [] documentUpdate = documentUpdate"
| "diffFields dv ((k, v) # entries) documentUpdate =
    (if k \<in> set excludedKeys then diffFields dv entries documentUpdate
     else if \<not> deepEqual (dv k) v \<and> \<not> isNullish v
       then diffFields dv entries (setField k v documentUpdate)
       else diffFields dv entries documentUpdate)"

text \<open>
  Modelled from the spec: \<^verbatim>\<open>TxProcessor.applyUpdate\<close> of the core package, which is not
  part of the source files. Applying a field update overwrites exactly the fields the
  update lists and leaves every other field as it is.
\<close>

fun applyUpdate :: "obj \<Rightarrow> obj \<Rightarrow> obj" where
  "applyUpdate doc [] = doc"
| "applyUpdate doc ((k, v) # upd) = applyUpdate (setField k v doc) upd"

section \<open>Mixins (sync traits)\<close>

text \<open>
  Modelled from the spec: the hierarchy of the core package (\<^verbatim>\<open>hasMixin\<close>, \<^verbatim>\<open>as\<close>) and
  the identifiers of the plugins, which are not part of the source files. A trait is
  typed metadata attached to a document; the document stores it under the trait's
  identifier. \<^verbatim>\<open>hierarchy.as(doc, mixin)\<close> is the document seen with the trait: a field
  is read from the trait when the trait has it, from the document otherwise.
\<close>

definition syncMixin :: string where
  "syncMixin = ''bitrix:mixin:BitrixSyncDoc''"

definition attachmentClass :: jvalue where
  "attachmentClass = JStr ''attachment:class:Attachment''"

datatype docview = Plain obj | As obj string

fun toDoc :: "docview \<Rightarrow> obj" where
  "toDoc (Plain d) = d"
| "toDoc (As d m) = d"

definition mixinData :: "obj \<Rightarrow> string \<Rightarrow> obj" where
  "mixinData d m = (case getField d m of JObj a \<Rightarrow> a | _ \<Rightarrow> [])"

fun readField :: "docview \<Rightarrow> string \<Rightarrow> jvalue" where
  "readField (Plain d) k = getField d k"
| "readField (As d m) k =
    (case getField (mixinData d m) k of JUndefined \<Rightarrow> getField d k | v \<Rightarrow> v)"

definition hasMixin :: "docview \<Rightarrow> string \<Rightarrow> bool" where
  "hasMixin v m = (case getField (toDoc v) m of JObj _ \<Rightarrow> True | _ \<Rightarrow> False)"

text \<open>The remote id a document carries in its sync trait.\<close>

definition bitrixIdOf :: "obj \<Rightarrow> jvalue" where
  "bitrixIdOf it = readField (As it syncMixin) ''bitrixId''"

section \<open>The document store and its transactions\<close>

text \<open>
  The operations the merge engine issues. \<^verbatim>\<open>modifiedOn\<close> and \<^verbatim>\<open>modifiedBy\<close>, which the
  source passes along, are part of the attributes already.
\<close>

datatype tx =
    TxCreateDoc jvalue jvalue obj jvalue
      \<comment> \<open>\<^verbatim>\<open>createDoc(_class, space, attributes, id)\<close>\<close>
  | TxUpdateDoc jvalue obj
      \<comment> \<open>\<^verbatim>\<open>update(doc, update)\<close>, by the document's \<^verbatim>\<open>_id\<close>\<close>
  | TxCreateMixin jvalue string obj
      \<comment> \<open>\<^verbatim>\<open>createMixin(objectId, _, _, mixin, attributes)\<close>\<close>
  | TxUpdateMixin jvalue string obj
      \<comment> \<open>\<^verbatim>\<open>updateMixin(objectId, _, _, mixin, update)\<close>\<close>
  | TxAddCollection jvalue jvalue jvalue jvalue jvalue obj jvalue
      \<comment> \<open>\<^verbatim>\<open>addCollection(_class, space, attachedTo, attachedToClass, collection, attributes, id)\<close>\<close>
  | TxRemoveDoc jvalue
      \<comment> \<open>\<^verbatim>\<open>remove(doc)\<close>, by the document's \<^verbatim>\<open>_id\<close>\<close>

type_synonym store = "obj list"

definition hasId :: "jvalue \<Rightarrow> obj \<Rightarrow> bool" where
  "hasId i d = (getField d ''_id'' = i)"

text \<open>
  Modelled from the spec: the transactional document store of the core package
  (create, update, remove, mixin attachment, collection attachment, find), which is not
  part of the source files.
\<close>

fun applyTx :: "tx \<Rightarrow> store \<Rightarrow> store" where
  "applyTx (TxCreateDoc c sp a i) st =
     st @ [setField ''_id'' i (setField ''space'' sp (setField ''_class'' c a))]"
| "applyTx (TxUpdateDoc i u) st = map (\<lambda>d. if hasId i d then applyUpdate d u else d) st"
| "applyTx (TxCreateMixin i m a) st = map (\<lambda>d. if hasId i d then setField m (JObj a) d else d) st"
| "applyTx (TxUpdateMixin i m u) st =
     map (\<lambda>d. if hasId i d then setField m (JObj (applyUpdate (mixinData d m) u)) d else d) st"
| "applyTx (TxAddCollection c sp att attc coll a i) st =
     st @ [setField ''_id'' i (setField ''collection'' coll (setField ''attachedToClass'' attc
            (setField ''attachedTo'' att (setField ''space'' sp (setField ''_class'' c a)))))]"
| "applyTx (TxRemoveDoc i) st = filter (\<lambda>d. \<not> hasId i d) st"

fun applyTxs :: "tx list \<Rightarrow> store \<Rightarrow> store" where
  "applyTxs [] st = st"
| "applyTxs (t # ts) st = applyTxs ts (applyTx t st)"

section \<open>The world the merge engine acts on\<close>

text \<open>
  What can go wrong: every call that leaves the process may reject. The operations of an
  \<^verbatim>\<open>ApplyOperations\<close> only record a transaction and reach the store at \<^verbatim>\<open>commit\<close>.
\<close>

datatype failure =
    FindAllFailed
  | RemoveFailed
  | CommitFailed
  | BlobLoadFailed
  | BlobMissing
  | UploadFailed
  | ConvertFailed
  | CommentsFailed
  | RemoteFailed
  | StoreFailed

record jsFile =
  fname :: string
  fsize :: int
  ftype :: string
  flastModified :: int

text \<open>
  \<open>store\<close> is what is durable; \<open>queue\<close> the operations recorded in the open
  \<^verbatim>\<open>ApplyOperations\<close>; \<open>history\<close> every operation that became durable, in order;
  \<open>uploads\<close> the blobs posted to the upload endpoint; \<open>errlog\<close> what \<^verbatim>\<open>console.error\<close>
  printed; \<open>nextId\<close> counts the calls of \<^verbatim>\<open>generateId\<close>.
\<close>

record world =
  store :: store
  queue :: "tx list"
  history :: "tx list"
  uploads :: "jsFile list"
  errlog :: "failure list"
  nextId :: nat

text \<open>
  The collaborators: the clock, the class hierarchy, and which calls reject.
  \<open>isAttachedDoc cl\<close> is \<^verbatim>\<open>hierarchy.isDerived(cl, core.class.AttachedDoc)\<close> (line 140);
  \<open>isDerived c cl\<close> says that the class \<open>c\<close> is derived from the class \<open>cl\<close>.
\<close>

record env =
  now :: int
  isAttachedDoc :: "jvalue \<Rightarrow> bool"
  isDerived :: "jvalue \<Rightarrow> jvalue \<Rightarrow> bool"
  findAllFails :: "jvalue \<Rightarrow> bool"
  removeFails :: "jvalue \<Rightarrow> bool"
  uploadBlob :: "jsFile \<Rightarrow> failure + (int \<times> string)"
  commitFails :: bool
  generateId :: "nat \<Rightarrow> jvalue"

text \<open>
  Modelled from the spec: \<^verbatim>\<open>findAll\<close> of the store and the class hierarchy of the core
  package, which are not part of the source files. \<^verbatim>\<open>findAll(cl, query)\<close> gives the
  documents of the class \<open>cl\<close> and of the classes derived from it that meet the query, in
  the order of the store; \<^verbatim>\<open>findAll(cl, { attachedTo: id })\<close> those that are attached to
  the document \<open>id\<close>.
\<close>

definition ofClass :: "env \<Rightarrow> jvalue \<Rightarrow> obj \<Rightarrow> bool" where
  "ofClass e cl d = (getField d ''_class'' = cl \<or> isDerived e (getField d ''_class'') cl)"

definition findAllAttached :: "env \<Rightarrow> store \<Rightarrow> jvalue \<Rightarrow> jvalue \<Rightarrow> obj list" where
  "findAllAttached e st cl parent =
     filter (\<lambda>d. ofClass e cl d \<and> getField d ''attachedTo'' = parent) st"

datatype 'a result = Ok 'a world | Thrown failure world

definition enqueue :: "tx \<Rightarrow> world \<Rightarrow> world" where
  "enqueue t w = w\<lparr>queue := queue w @ [t]\<rparr>"

definition logError :: "failure \<Rightarrow> world \<Rightarrow> world" where
  "logError e w = w\<lparr>errlog := errlog w @ [e]\<rparr>"

section \<open>\<^verbatim>\<open>updateDoc\<close>, \<^verbatim>\<open>updateMixin\<close>, \<^verbatim>\<open>updateMixins\<close> (lines 41-87, 305-329)\<close>

definition updateDoc :: "obj \<Rightarrow> obj \<Rightarrow> world \<Rightarrow> obj \<times> world" where
  "updateDoc doc raw w =
    (let documentUpdate = diffFields (getField doc) raw []
     in if documentUpdate \<noteq> []
        then (applyUpdate doc documentUpdate,
              enqueue (TxUpdateDoc (getField doc ''_id'') documentUpdate) w)
        else (doc, w))"

definition updateMixin :: "docview \<Rightarrow> obj \<Rightarrow> string \<Rightarrow> world \<Rightarrow> world" where
  "updateMixin doc raw mixin w =
    (if \<not> hasMixin doc mixin
     then enqueue (TxCreateMixin (readField doc ''_id'') mixin raw) w
     else let documentUpdate = diffFields (readField doc) raw []
          in if documentUpdate \<noteq> []
             then enqueue (TxUpdateMixin (readField doc ''_id'') mixin documentUpdate) w
             else w)"

fun updateMixins :: "(string \<times> obj) list \<Rightarrow> obj \<Rightarrow> obj \<Rightarrow> world \<Rightarrow> world" where
  "updateMixins [] existing resultDoc w = w"
| "updateMixins ((m, mv) # mixins) existing resultDoc w =
    (if \<not> hasMixin (Plain existing) m
     then updateMixins mixins existing resultDoc
            (enqueue (TxCreateMixin (getField resultDoc ''_id'') m mv) w)
     else updateMixins mixins existing resultDoc (updateMixin (As existing m) mv m w))"

section \<open>\<^verbatim>\<open>syncDocument\<close> (lines 92-303)\<close>

record blob =
  ed :: obj
  op :: "failure + jsFile option"
  upd :: "jsFile \<Rightarrow> obj \<Rightarrow> obj"

text \<open>
  The result of the conversion (\<^verbatim>\<open>ConvertResult\<close> of the utils module): the fields the
  merge engine reads.
\<close>

record convertResult =
  document :: obj
  rawData :: jvalue
  mixins :: "(string \<times> obj) list"
  extraDocs :: "obj list"
  extraSync :: "obj list"
  blobs :: "blob list"

text \<open>The data of the sync trait of an attached document (lines 244-248 and 270-274).\<close>

definition syncDataOf :: "obj \<Rightarrow> obj" where
  "syncDataOf valValue =
    [(''type'', getField valValue ''type''),
     (''bitrixId'', getField valValue ''bitrixId''),
     (''rawData'', getField valValue ''rawData'')]"

text \<open>The \<^verbatim>\<open>addCollection\<close> of lines 252-263, with the rest of the destructuring as data.\<close>

definition addCollectionOf :: "obj \<Rightarrow> tx" where
  "addCollectionOf valValue =
    TxAddCollection (getField valValue ''_class'') (getField valValue ''space'')
      (getField valValue ''attachedTo'') (getField valValue ''attachedToClass'')
      (getField valValue ''collection'')
      (deleteField ''rawData'' (deleteField ''bitrixId'' valValue))
      (getField valValue ''_id'')"

text \<open>\<^verbatim>\<open>updateAttachedDoc\<close> (lines 232-279).\<close>

definition updateAttachedDoc :: "obj option \<Rightarrow> obj \<Rightarrow> world \<Rightarrow> obj option \<times> world" where
  "updateAttachedDoc existing valValue w =
    (case existing of
       Some e \<Rightarrow>
         (let (e', w1) = updateDoc e valValue w
          in (Some e', updateMixin (As e' syncMixin) (syncDataOf valValue) syncMixin w1))
     | None \<Rightarrow>
         (None, enqueue (TxCreateMixin (getField valValue ''_id'') syncMixin (syncDataOf valValue))
                  (enqueue (addCollectionOf valValue) w)))"

text \<open>
  \<^verbatim>\<open>createDoc\<close> returns the identifier of the new document: the one it is given, or a
  generated one.
\<close>

definition createDoc :: "env \<Rightarrow> jvalue \<Rightarrow> jvalue \<Rightarrow> obj \<Rightarrow> jvalue \<Rightarrow> world \<Rightarrow> jvalue \<times> world" where
  "createDoc e c sp a i w =
    (if i = JUndefined
     then (generateId e (nextId w),
           enqueue (TxCreateDoc c sp a (generateId e (nextId w))) (w\<lparr>nextId := Suc (nextId w)\<rparr>))
     else (i, enqueue (TxCreateDoc c sp a i) w))"

text \<open>
  \<^verbatim>\<open>updateMainDoc\<close> (lines 281-302): the document the rest works on, and
  \<^verbatim>\<open>resultDoc.document\<close> with its identifier settled.
\<close>

definition updateMainDoc :: "env \<Rightarrow> obj option \<Rightarrow> obj \<Rightarrow> world \<Rightarrow> (obj \<times> obj) \<times> world" where
  "updateMainDoc e existing doc w =
    (case existing of
       Some ex \<Rightarrow>
         (let doc' = setField ''_id'' (getField ex ''_id'') doc;
              (ex', w1) = updateDoc ex doc' w
          in ((ex', doc'), w1))
     | None \<Rightarrow>
         (let data = deleteField ''rawData'' (deleteField ''bitrixId'' doc);
              (i, w1) = createDoc e (getField doc ''_class'') (getField doc ''space'') data
                          (getField doc ''_id'') w;
              doc' = setField ''_id'' i doc
          in ((doc', doc'), w1)))"

text \<open>The mixins to check, with the sync trait added (lines 107-115).\<close>

definition withSyncMixin :: "env \<Rightarrow> convertResult \<Rightarrow> (string \<times> obj) list" where
  "withSyncMixin e resultDoc =
    AList.update syncMixin
      [(''type'', getField (document resultDoc) ''type''),
       (''bitrixId'', getField (document resultDoc) ''bitrixId''),
       (''rawData'', rawData resultDoc),
       (''syncTime'', JNum (now e))]
      (mixins resultDoc)"

text \<open>Supplier documents are created as they come (lines 121-130).\<close>

fun createExtraDocs :: "env \<Rightarrow> obj list \<Rightarrow> world \<Rightarrow> world" where
  "createExtraDocs e [] w = w"
| "createExtraDocs e (d # ds) w =
    createExtraDocs e ds
      (snd (createDoc e (getField d ''_class'') (getField d ''space'') d (getField d ''_id'') w))"

text \<open>The pending documents by class, in the order of the first of each class (lines 133-137).\<close>

fun groupByClass :: "obj list \<Rightarrow> (jvalue \<times> obj list) list \<Rightarrow> (jvalue \<times> obj list) list" where
  "groupByClass [] byClass = byClass"
| "groupByClass (d # ds) byClass =
    groupByClass ds
      (AList.update (getField d ''_class'')
         ((case map_of byClass (getField d ''_class'') of None \<Rightarrow> [] | Some vals \<Rightarrow> vals) @ [d])
         byClass)"

text \<open>\<^verbatim>\<open>xs.findIndex(p)\<close>: the first index, or none (\<^verbatim>\<open>-1\<close>).\<close>

fun findIndex :: "('a \<Rightarrow> bool) \<Rightarrow> 'a list \<Rightarrow> nat option" where
  "findIndex p [] = None"
| "findIndex p (x # xs) =
    (if p x then Some 0 else (case findIndex p xs of None \<Rightarrow> None | Some i \<Rightarrow> Some (Suc i)))"

text \<open>\<^verbatim>\<open>xs.splice(i, 1)\<close>: what is left of the list.\<close>

definition spliceOut :: "nat \<Rightarrow> 'a list \<Rightarrow> 'a list" where
  "spliceOut i xs = take i xs @ drop (Suc i) xs"

text \<open>The test of lines 146-148 and 169-171: the sync trait carries the pending remote id.\<close>

definition matches :: "obj \<Rightarrow> obj \<Rightarrow> bool" where
  "matches it valValue = strictEq (bitrixIdOf it) (getField valValue ''bitrixId'')"

text \<open>
  The pending documents of one class against the existing ones (lines 145-156): the
  existing documents no pending one has taken, and the world.
\<close>

fun syncPending :: "jvalue \<Rightarrow> obj list \<Rightarrow> obj list \<Rightarrow> world \<Rightarrow> obj list \<times> world" where
  "syncPending parent existingByClass [] w = (existingByClass, w)"
| "syncPending parent existingByClass (valValue # vals) w =
    (let existingIdx = findIndex (\<lambda>it. matches it valValue) existingByClass;
         valValue' = setField ''attachedTo'' parent valValue
     in case existingIdx of
          Some i \<Rightarrow>
            syncPending parent (spliceOut i existingByClass) vals
              (snd (updateAttachedDoc (Some (existingByClass ! i)) valValue' w))
        | None \<Rightarrow>
            syncPending parent existingByClass vals (snd (updateAttachedDoc None valValue' w)))"

text \<open>
  The existing documents that are left are removed (lines 159-161), by
  \<^verbatim>\<open>client.remove\<close>: at once, not through the \<^verbatim>\<open>ApplyOperations\<close>.
\<close>

definition removeNow :: "jvalue \<Rightarrow> world \<Rightarrow> world" where
  "removeNow i w =
     w\<lparr>store := applyTx (TxRemoveDoc i) (store w), history := history w @ [TxRemoveDoc i]\<rparr>"

fun removeOrphans :: "env \<Rightarrow> obj list \<Rightarrow> world \<Rightarrow> unit result" where
  "removeOrphans e [] w = Ok () w"
| "removeOrphans e (d # ds) w =
    (if removeFails e (getField d ''_id'') then Thrown RemoveFailed w
     else removeOrphans e ds (removeNow (getField d ''_id'') w))"

text \<open>One class of pending documents (the body of the loop of lines 139-163).\<close>

definition syncClass :: "env \<Rightarrow> jvalue \<Rightarrow> jvalue \<Rightarrow> obj list \<Rightarrow> world \<Rightarrow> unit result" where
  "syncClass e parent cl vals w =
    (if isAttachedDoc e cl
     then (if findAllFails e cl then Thrown FindAllFailed w
           else (let existingByClass = findAllAttached e (store w) cl parent;
                     (left, w1) = syncPending parent existingByClass vals w
                 in removeOrphans e left w1))
     else Ok () w)"

fun syncClasses :: "env \<Rightarrow> jvalue \<Rightarrow> (jvalue \<times> obj list) list \<Rightarrow> world \<Rightarrow> unit result" where
  "syncClasses e parent [] w = Ok () w"
| "syncClasses e parent ((cl, vals) # byClass) w =
    (case syncClass e parent cl vals w of
       Thrown f w' \<Rightarrow> Thrown f w'
     | Ok _ w' \<Rightarrow> syncClasses e parent byClass w')"

text \<open>
  The scan of the existing attachments for one with the same name, size and type
  (lines 190-201). The first is updated, in the store and in memory; the others are
  removed through the \<^verbatim>\<open>ApplyOperations\<close>.
\<close>

definition sameBlob :: "obj \<Rightarrow> obj \<Rightarrow> bool" where
  "sameBlob existingObj e =
    (strictEq (getField existingObj ''name'') (getField e ''name'') \<and>
     strictEq (getField existingObj ''size'') (getField e ''size'') \<and>
     strictEq (getField existingObj ''type'') (getField e ''type''))"

fun dedupExisting :: "obj list \<Rightarrow> obj \<Rightarrow> bool \<Rightarrow> world \<Rightarrow> (obj list \<times> bool) \<times> world" where
  "dedupExisting [] e updated w = (([], updated), w)"
| "dedupExisting (existingObj # rest) e updated w =
    (if sameBlob existingObj e
     then (if \<not> updated
           then (case updateAttachedDoc (Some existingObj) e w of
                   (ex', w1) \<Rightarrow>
                     (case dedupExisting rest e True w1 of
                        ((rest', u), w2) \<Rightarrow>
                          (((case ex' of Some x \<Rightarrow> x | None \<Rightarrow> existingObj) # rest', u), w2)))
           else (case dedupExisting rest e updated
                        (enqueue (TxRemoveDoc (getField existingObj ''_id'')) w) of
                   ((rest', u), w2) \<Rightarrow> ((existingObj # rest', u), w2)))
     else (case dedupExisting rest e updated w of
             ((rest', u), w2) \<Rightarrow> ((existingObj # rest', u), w2)))"

text \<open>
  The pending attachment once its bytes are there (lines 184-188): the mutator of the
  descriptor runs, then last modification, size and type are taken from the file.
\<close>

definition finalizeBlob :: "blob \<Rightarrow> jsFile \<Rightarrow> obj" where
  "finalizeBlob b edData =
    setField ''type'' (JStr (ftype edData))
      (setField ''size'' (JNum (fsize edData))
        (setField ''lastModified'' (JNum (flastModified edData)) (upd b edData (ed b))))"

text \<open>One pending attachment (the body of the loop of lines 168-225).\<close>

definition syncBlob :: "env \<Rightarrow> obj list \<Rightarrow> blob \<Rightarrow> world \<Rightarrow> obj list \<times> world" where
  "syncBlob e existingBlobs b w =
    (case find (\<lambda>it. matches it (ed b)) existingBlobs of
       Some existing \<Rightarrow> (existingBlobs, w)
     | None \<Rightarrow>
        (let attachmentId = generateId e (nextId w);
             w0 = w\<lparr>nextId := Suc (nextId w)\<rparr>
         in case op b of
              Inl f \<Rightarrow> (existingBlobs, logError f w0)
            | Inr None \<Rightarrow> (existingBlobs, logError BlobMissing w0)
            | Inr (Some edData) \<Rightarrow>
               (let ed2 = finalizeBlob b edData
                in case dedupExisting existingBlobs ed2 False w0 of
                     ((existingBlobs', updated), w1) \<Rightarrow>
                       (if \<not> updated
                        then (case uploadBlob e edData of
                                Inl f \<Rightarrow> (existingBlobs', logError f w1)
                              | Inr (status, uuid) \<Rightarrow>
                                  (let w2 = w1\<lparr>uploads := uploads w1 @ [edData]\<rparr>
                                   in if status = 200
                                      then (existingBlobs',
                                            snd (updateAttachedDoc None
                                                  (setField ''_id'' attachmentId
                                                    (setField ''file'' (JStr uuid) ed2)) w2))
                                      else (existingBlobs', w2)))
                        else (existingBlobs', w1)))))"

fun syncBlobs :: "env \<Rightarrow> obj list \<Rightarrow> blob list \<Rightarrow> world \<Rightarrow> obj list \<times> world" where
  "syncBlobs e existingBlobs [] w = (existingBlobs, w)"
| "syncBlobs e existingBlobs (b # bs) w =
    (case syncBlob e existingBlobs b w of
       (existingBlobs', w') \<Rightarrow> syncBlobs e existingBlobs' bs w')"

text \<open>
  Modelled from the spec: \<^verbatim>\<open>ApplyOperations.commit\<close> of the core package. The recorded
  operations become durable together, or the call rejects and none does.
\<close>

definition commit :: "env \<Rightarrow> world \<Rightarrow> unit result" where
  "commit e w =
    (if commitFails e then Thrown CommitFailed w
     else Ok () (w\<lparr>store := applyTxs (queue w) (store w),
                    history := history w @ queue w,
                    queue := []\<rparr>))"

text \<open>The handler of line 227: the error is printed, the open transaction is dropped.\<close>

definition caught :: "failure \<Rightarrow> world \<Rightarrow> world" where
  "caught f w = (logError f w)\<lparr>queue := []\<rparr>"

text \<open>
  \<^verbatim>\<open>syncDocument\<close>: the existing document as it is in memory afterwards,
  \<^verbatim>\<open>resultDoc.document\<close> with its identifier settled, and the world. The call of the
  monitor (line 230) is the caller's, see the orchestration loop.
\<close>

definition syncDocument ::
    "env \<Rightarrow> obj option \<Rightarrow> convertResult \<Rightarrow> world \<Rightarrow> (obj \<times> obj) \<times> world" where
  "syncDocument e existing resultDoc w =
    (case updateMainDoc e existing (document resultDoc) (w\<lparr>queue := []\<rparr>) of
       ((existing', doc'), w1) \<Rightarrow>
        (let w2 = updateMixins (withSyncMixin e resultDoc) existing' doc' w1;
             w3 = createExtraDocs e (extraDocs resultDoc) w2;
             byClass = groupByClass (extraSync resultDoc) []
         in case syncClasses e (getField doc' ''_id'') byClass w3 of
              Thrown f w' \<Rightarrow> ((existing', doc'), caught f w')
            | Ok _ w4 \<Rightarrow>
               (if findAllFails e attachmentClass
                then ((existing', doc'), caught FindAllFailed w4)
                else (case syncBlobs e
                             (findAllAttached e (store w4) attachmentClass (getField doc' ''_id''))
                             (blobs resultDoc) w4 of
                        (existingBlobs', w5) \<Rightarrow>
                          (case commit e w5 of
                             Thrown f w' \<Rightarrow> ((existing', doc'), caught f w')
                           | Ok _ w6 \<Rightarrow> ((existing', doc'), w6))))))"

section \<open>The orchestration loop (lines 387-589)\<close>

text \<open>
  The entity mapping (\<^verbatim>\<open>BitrixEntityMapping\<close> of the types module) as far as the loop
  reads it: \<open>mfields\<close> is \<^verbatim>\<open>mapping.$lookup?.fields\<close>.
\<close>

record mapping =
  mtype :: string
  mcomments :: bool
  mofClass :: jvalue
  mfields :: "obj list option"

datatype direction = ASC | DSC

text \<open>The calls to the remote client.\<close>

datatype call =
    CallCommentFields
  | CallOwnerTypes
  | CallUserSearch jvalue
  | CallList string direction jvalue "obj option"
      \<comment> \<open>\<^verbatim>\<open>mapping.type + '.list'\<close> with order, start and filter\<close>

text \<open>
  What an observer of a run sees besides the store: the remote calls, the conversions,
  the merges, the progress reports, the log lines and the sleeps.
\<close>

datatype event =
    ERemote call
  | EConvert obj
  | EComments
  | EMerge obj
  | EMonitor jvalue
  | ELogTotal jvalue
  | ELoad int int
  | ELogFailure obj failure
  | ESleep int
  | ELogError failure

text \<open>
  \<^verbatim>\<open>SyncOptions & SyncOptionsExtra\<close> (lines 392-412). The monitor is what a call of
  \<^verbatim>\<open>ops.monitor\<close> shows: a progress report, or a log line in the nested run of
  line 600.
\<close>

record syncOptions =
  space :: jvalue
  mapping :: mapping
  limit :: int
  direction :: direction
  extraFilter :: "obj option"
  syncPeriod :: "int option"
  monitor :: "jvalue \<Rightarrow> event"
  ownerTypeValues :: "obj list"
  commentFieldKeys :: "string list"
  allMappings :: "mapping list"
  allEmployee :: "obj list"
  userList :: "(jvalue \<times> jvalue) list"

definition defaultSyncPeriod :: int where
  "defaultSyncPeriod = 1000 * 60 * 60 * 24"

text \<open>One page of the remote list: \<^verbatim>\<open>result\<close>, \<^verbatim>\<open>total\<close>, \<^verbatim>\<open>next\<close>.\<close>

record page =
  presult :: "obj list"
  ptotal :: jvalue
  pnext :: "jvalue option"

text \<open>
  The collaborators of the loop. The conversion (\<^verbatim>\<open>convert\<close> of the utils module) and the
  download of comments (lines 627-753) are taken by what they give for a record: a
  conversion result, or an exception. The download only throws or appends pending
  sub-documents and attachment descriptors to the result.
\<close>

record lenv =
  menv :: env
  listPage :: "syncOptions \<Rightarrow> jvalue \<Rightarrow> failure + page"
  convert :: "syncOptions \<Rightarrow> obj \<Rightarrow> obj option \<Rightarrow> obj list \<Rightarrow> failure + convertResult"
  downloadComments :: "syncOptions \<Rightarrow> convertResult \<Rightarrow> failure + convertResult"
  writeFails :: "tx \<Rightarrow> bool"
  commentFields :: "failure + obj"
  ownerTypes :: "failure + obj list"
  userSearch :: "jvalue \<Rightarrow> failure + page"
  entityMappings :: "mapping list"
  combineName :: "jvalue \<Rightarrow> jvalue \<Rightarrow> jvalue"

text \<open>
  The state of a run: the world, what was observed, and the variables of
  \<^verbatim>\<open>doPerformSync\<close> (\<^verbatim>\<open>added\<close>, \<^verbatim>\<open>resultDocs\<close>, \<^verbatim>\<open>allTagElements\<close>, and per page
  \<^verbatim>\<open>existingDocuments\<close> and \<^verbatim>\<open>synchronized\<close>).
\<close>

record lstate =
  world :: world
  trace :: "event list"
  added :: int
  resultDocs :: "obj list"
  allTagElements :: "obj list"
  existingDocuments :: "obj list"
  synchronized :: int

definition emit :: "event \<Rightarrow> lstate \<Rightarrow> lstate" where
  "emit ev st = st\<lparr>trace := trace st @ [ev]\<rparr>"

text \<open>
  Modelled from the spec: the identifiers of the classes and entity types of the other
  plugins, which are not part of the source files.
\<close>

definition tagElementClass :: jvalue where
  "tagElementClass = JStr ''tags:class:TagElement''"

definition tagCategoryClass :: jvalue where
  "tagCategoryClass = JStr ''tags:class:TagCategory''"

definition memberClass :: jvalue where
  "memberClass = JStr ''contact:class:Member''"

definition employeeClass :: jvalue where
  "employeeClass = JStr ''contact:class:Employee''"

definition employeeAccountClass :: jvalue where
  "employeeAccountClass = JStr ''contact:class:EmployeeAccount''"

definition entityMappingClass :: jvalue where
  "entityMappingClass = JStr ''bitrix:class:EntityMapping''"

definition companyType :: string where
  "companyType = ''crm.company''"

definition contactType :: string where
  "contactType = ''crm.contact''"

text \<open>The template string \<^verbatim>\<open>`${it.ID}`\<close> of line 487.\<close>

fun decimal :: "nat \<Rightarrow> string" where
  "decimal n =
    (if n < 10 then [char_of (48 + n)] else decimal (n div 10) @ [char_of (48 + n mod 10)])"

fun templateString :: "jvalue \<Rightarrow> string" where
  "templateString (JStr s) = s"
| "templateString (JNum n) = (if n < 0 then CHR ''-'' # decimal (nat (- n)) else decimal (nat n))"
| "templateString (JBool b) = (if b then ''true'' else ''false'')"
| "templateString JNull = ''null''"
| "templateString JUndefined = ''undefined''"
| "templateString (JArr xs) = ''[array]''"
| "templateString (JObj a) = ''[object Object]''"

text \<open>
  The query of lines 486-488: the documents of the mapped class whose sync trait
  carries the remote id of a record of the page.
\<close>

definition findExistingDocuments :: "env \<Rightarrow> store \<Rightarrow> jvalue \<Rightarrow> obj list \<Rightarrow> obj list" where
  "findExistingDocuments e st cl toProcess =
    filter (\<lambda>d. ofClass e cl d \<and>
                (\<exists>it\<in>set toProcess.
                   getField (mixinData d syncMixin) ''bitrixId'' =
                     JStr (templateString (getField it ''ID''))))
           st"

text \<open>\<^verbatim>\<open>findAll(cl, {})\<close> and \<^verbatim>\<open>findAll(tags.class.TagCategory, { default: true })\<close>.\<close>

definition findAllOfClass :: "env \<Rightarrow> store \<Rightarrow> jvalue \<Rightarrow> obj list" where
  "findAllOfClass e st cl = filter (ofClass e cl) st"

text \<open>The lookup of lines 498-500: the index of the local document of the record.\<close>

definition findExisting :: "obj list \<Rightarrow> obj \<Rightarrow> nat option" where
  "findExisting docs r = findIndex (\<lambda>it. strictEq (bitrixIdOf it) (getField r ''ID'')) docs"

text \<open>
  The test of line 503: \<^verbatim>\<open>bd.syncTime !== undefined && bd.syncTime + period > syncTime\<close>.
  The sync time is a number whenever the engine wrote it (\<^verbatim>\<open>syncDocument\<close> writes
  \<^verbatim>\<open>Date.now()\<close>); in the sum \<^verbatim>\<open>null\<close> counts as 0 and a boolean as 0 or 1. A
  string, an array or an object there is not a sync time: it is taken as not suppressing.
\<close>

definition suppressed :: "syncOptions \<Rightarrow> int \<Rightarrow> obj \<Rightarrow> bool" where
  "suppressed ops syncTime existingDoc =
    (let period = (case syncPeriod ops of None \<Rightarrow> defaultSyncPeriod | Some p \<Rightarrow> p)
     in case readField (As existingDoc syncMixin) ''syncTime'' of
          JNum t \<Rightarrow> t + period > syncTime
        | JNull \<Rightarrow> period > syncTime
        | JBool b \<Rightarrow> (if b then 1 else 0) + period > syncTime
        | _ \<Rightarrow> False)"

text \<open>
  A direct write through the client (\<^verbatim>\<open>client.createDoc\<close>, \<^verbatim>\<open>client.addCollection\<close>):
  durable at once, or the call rejects.
\<close>

definition writeNow :: "lenv \<Rightarrow> tx \<Rightarrow> world \<Rightarrow> unit result" where
  "writeNow e t w =
    (if writeFails e t then Thrown StoreFailed w
     else Ok () (w\<lparr>store := applyTx t (store w), history := history w @ [t]\<rparr>))"

text \<open>
  \<^verbatim>\<open>performOrganizationContactSynchronization\<close> (lines 591-625), with the nested run of
  \<^verbatim>\<open>doPerformSync\<close> as \<open>run\<close>. The nested run has variables of its own; those of the
  caller are as before when it returns.
\<close>

fun addMembers :: "lenv \<Rightarrow> obj \<Rightarrow> obj list \<Rightarrow> obj list \<Rightarrow> world \<Rightarrow> unit result" where
  "addMembers e doc existingContacts [] w = Ok () w"
| "addMembers e doc existingContacts (c # contacts) w =
    (case find (\<lambda>ex. strictEq (getField ex ''contact'') (getField c ''_id'')) existingContacts of
       Some ex \<Rightarrow> addMembers e doc existingContacts contacts w
     | None \<Rightarrow>
        (case generateId (menv e) (nextId w) of i \<Rightarrow>
          (case writeNow e (TxAddCollection memberClass (getField doc ''space'') (getField doc ''_id'')
                   (getField doc ''_class'') (JStr ''members'') [(''contact'', getField c ''_id'')] i)
                  (w\<lparr>nextId := Suc (nextId w)\<rparr>) of
             Thrown f w' \<Rightarrow> Thrown f w'
           | Ok _ w' \<Rightarrow> addMembers e doc existingContacts contacts w')))"

definition performOrganizationContactSynchronization ::
    "(lenv \<Rightarrow> syncOptions \<Rightarrow> lstate \<Rightarrow> (obj list \<times> lstate) option) \<Rightarrow>
     lenv \<Rightarrow> syncOptions \<Rightarrow> convertResult \<Rightarrow> lstate \<Rightarrow> ((failure + unit) \<times> lstate) option" where
  "performOrganizationContactSynchronization run e ops res st =
    (case run e (ops\<lparr>extraFilter := Some [(''COMPANY_ID'', getField (document res) ''bitrixId'')],
                      monitor := ELogTotal\<rparr>) st of
       None \<Rightarrow> None
     | Some (contacts, st1) \<Rightarrow>
        (let st2 = st1\<lparr>added := added st, resultDocs := resultDocs st,
                        allTagElements := allTagElements st,
                        existingDocuments := existingDocuments st,
                        synchronized := synchronized st\<rparr>
         in if findAllFails (menv e) memberClass then Some (Inl FindAllFailed, st2)
            else (let existingContacts =
                        filter (\<lambda>d. ofClass (menv e) memberClass d \<and>
                                    getField d ''attachedTo'' = getField (document res) ''_id'' \<and>
                                    getField d ''contact'' \<in> (\<lambda>c. getField c ''_id'') ` set contacts)
                               (store (world st2))
                  in case addMembers e (document res) existingContacts contacts (world st2) of
                       Thrown f w' \<Rightarrow> Some (Inl f, st2\<lparr>world := w'\<rparr>)
                     | Ok _ w' \<Rightarrow> Some (Inr (), st2\<lparr>world := w'\<rparr>))))"

text \<open>
  The merge of a converted record (lines 533-547). The count is raised first; then
  \<^verbatim>\<open>syncDocument\<close> runs, which returns also when the merge failed, and calls the
  monitor; the document is appended to the result under the local identifier, and the tag
  elements among the extra documents are remembered.
\<close>

definition mergeRecord ::
    "lenv \<Rightarrow> syncOptions \<Rightarrow> jvalue \<Rightarrow> obj \<Rightarrow> nat option \<Rightarrow> obj option \<Rightarrow> convertResult \<Rightarrow> lstate \<Rightarrow>
     convertResult \<times> lstate" where
  "mergeRecord e ops totalCount r existingIdx existingDoc res st2 =
    (case syncDocument (menv e) existingDoc res (world st2) of
       ((existing', doc'), w') \<Rightarrow>
        (let st3 = emit (monitor ops totalCount)
                     ((emit (EMerge r) (st2\<lparr>added := added st2 + 1\<rparr>))\<lparr>world := w'\<rparr>);
             doc'' = (case existingDoc of
                        None \<Rightarrow> doc'
                      | Some x \<Rightarrow> setField ''_id'' (getField existing' ''_id'') doc');
             st4 = st3\<lparr>resultDocs := resultDocs st3 @ [doc''],
                       allTagElements := allTagElements st3 @
                         filter (\<lambda>d. getField d ''_class'' = tagElementClass) (extraDocs res),
                       existingDocuments :=
                         (case existingIdx of
                            None \<Rightarrow> existingDocuments st3
                          | Some i \<Rightarrow> (existingDocuments st3)[i := existing'])\<rparr>
         in (res\<lparr>document := doc''\<rparr>, st4)))"

text \<open>
  The contacts of an organisation (lines 549-564): synchronised after the merge when the
  mapping is the one of companies and a mapping of contacts is defined.
\<close>

definition contactsOfCompany ::
    "(lenv \<Rightarrow> syncOptions \<Rightarrow> lstate \<Rightarrow> (obj list \<times> lstate) option) \<Rightarrow>
     lenv \<Rightarrow> syncOptions \<Rightarrow> convertResult \<Rightarrow> lstate \<Rightarrow> ((failure + unit) \<times> lstate) option" where
  "contactsOfCompany run e ops res st =
    (if mtype (mapping ops) = companyType
     then (case find (\<lambda>it. mtype it = contactType) (allMappings ops) of
             None \<Rightarrow> Some (Inr (), st)
           | Some contactMapping \<Rightarrow>
               performOrganizationContactSynchronization run e
                 (ops\<lparr>mapping := contactMapping, limit := 100\<rparr>) res st)
     else Some (Inr (), st))"

text \<open>
  The \<^verbatim>\<open>try\<close> block of lines 515-568 for the record \<open>r\<close>, whose local document, if
  any, is at \<open>existingIdx\<close>: an exception, or whether the loop is left (\<^verbatim>\<open>break\<close>).
\<close>

definition recordBody ::
    "(lenv \<Rightarrow> syncOptions \<Rightarrow> lstate \<Rightarrow> (obj list \<times> lstate) option) \<Rightarrow>
     lenv \<Rightarrow> syncOptions \<Rightarrow> jvalue \<Rightarrow> obj \<Rightarrow> nat option \<Rightarrow> lstate \<Rightarrow>
     ((failure + bool) \<times> lstate) option" where
  "recordBody run e ops totalCount r existingIdx st =
    (let existingDoc = (case existingIdx of None \<Rightarrow> None | Some i \<Rightarrow> Some (existingDocuments st ! i));
         st1 = emit (EConvert r) st
     in case convert e ops r existingDoc (allTagElements st) of
          Inl f \<Rightarrow> Some (Inl f, st1)
        | Inr res0 \<Rightarrow>
           (case (if mcomments (mapping ops)
                  then (case downloadComments e ops res0 of
                          Inl f \<Rightarrow> (Inl f, emit EComments st1)
                        | Inr res1 \<Rightarrow> (Inr res1, emit EComments st1))
                  else (Inr res0, st1)) of
              (Inl f, st2) \<Rightarrow> Some (Inl f, st2)
            | (Inr res, st2) \<Rightarrow>
               (case mergeRecord e ops totalCount r existingIdx existingDoc res st2 of
                  (res', st4) \<Rightarrow>
                   (case contactsOfCompany run e ops res' st4 of
                      None \<Rightarrow> None
                    | Some (Inl f, st5) \<Rightarrow> Some (Inl f, st5)
                    | Some (Inr _, st5) \<Rightarrow> Some (Inr (limit ops \<le> added st5), st5)))))"

text \<open>
  One turn of the inner loop (lines 494-576) for the first record \<open>r\<close> of the page:
  whether the loop is left, and the state. In every case but \<^verbatim>\<open>break\<close> the record
  is off the page afterwards.
\<close>

definition processRecord ::
    "(lenv \<Rightarrow> syncOptions \<Rightarrow> lstate \<Rightarrow> (obj list \<times> lstate) option) \<Rightarrow>
     lenv \<Rightarrow> syncOptions \<Rightarrow> jvalue \<Rightarrow> int \<Rightarrow> obj \<Rightarrow> lstate \<Rightarrow> (bool \<times> lstate) option" where
  "processRecord run e ops totalCount syncTime r st =
    (let st0 = (emit (ELoad (synchronized st) (added st)) st)\<lparr>synchronized := synchronized st + 1\<rparr>;
         existingIdx = findExisting (existingDocuments st0) r
     in if (case existingIdx of
              None \<Rightarrow> False
            | Some i \<Rightarrow> suppressed ops syncTime (existingDocuments st0 ! i))
        then (let st1 = emit (monitor ops totalCount) (st0\<lparr>added := added st0 + 1\<rparr>)
              in Some (limit ops \<le> added st1, st1))
        else (case recordBody run e ops totalCount r existingIdx st0 of
                None \<Rightarrow> None
              | Some (Inl f, st1) \<Rightarrow> Some (False, emit (ESleep 1000) (emit (ELogFailure r f) st1))
              | Some (Inr brk, st1) \<Rightarrow> Some (brk, st1)))"

text \<open>The inner loop (lines 493-577) over the records of the page.\<close>

fun recordLoop ::
    "(lenv \<Rightarrow> syncOptions \<Rightarrow> lstate \<Rightarrow> (obj list \<times> lstate) option) \<Rightarrow>
     lenv \<Rightarrow> syncOptions \<Rightarrow> jvalue \<Rightarrow> int \<Rightarrow> obj list \<Rightarrow> lstate \<Rightarrow> lstate option" where
  "recordLoop run e ops totalCount syncTime [] st = Some st"
| "recordLoop run e ops totalCount syncTime (r # toProcess) st =
    (case processRecord run e ops totalCount syncTime r st of
       None \<Rightarrow> None
     | Some (brk, st') \<Rightarrow>
         if brk then Some st' else recordLoop run e ops totalCount syncTime toProcess st')"

text \<open>
  The outer loop (lines 470-584) from the cursor \<open>processed\<close>. It runs as long as the
  remote side has a next page and the limit is not reached, which may be for ever: the
  first argument bounds the number of pages, and the result is \<open>None\<close> when it is used up.
\<close>

primrec pageLoop ::
    "nat \<Rightarrow> (lenv \<Rightarrow> syncOptions \<Rightarrow> lstate \<Rightarrow> (obj list \<times> lstate) option) \<Rightarrow>
     lenv \<Rightarrow> syncOptions \<Rightarrow> jvalue \<Rightarrow> lstate \<Rightarrow> ((failure + unit) \<times> lstate) option" where
  "pageLoop 0 run e ops processed st =
    (if added st < limit ops then None else Some (Inr (), st))"
| "pageLoop (Suc n) run e ops processed st =
    (if added st < limit ops
     then (let st1 = emit (ERemote (CallList (mtype (mapping ops)) (direction ops) processed
                                      (extraFilter ops))) st
           in case listPage e ops processed of
                Inl f \<Rightarrow> Some (Inl f, st1)
              | Inr result \<Rightarrow>
                 (if findAllFails (menv e) (mofClass (mapping ops))
                     \<or> findAllFails (menv e) tagCategoryClass
                  then Some (Inl FindAllFailed, st1)
                  else (case recordLoop run e ops (ptotal result) (now (menv e)) (presult result)
                               (st1\<lparr>existingDocuments :=
                                       findExistingDocuments (menv e) (store (world st1))
                                         (mofClass (mapping ops)) (presult result),
                                     synchronized := 0\<rparr>) of
                          None \<Rightarrow> None
                        | Some st2 \<Rightarrow>
                           (case pnext result of
                              None \<Rightarrow> Some (Inr (), st2)
                            | Some next \<Rightarrow> pageLoop n run e ops next st2))))
     else Some (Inr (), st))"

text \<open>
  \<^verbatim>\<open>doPerformSync\<close> (lines 455-589) with the nested run as \<open>run\<close>: the documents
  synchronised, also when an exception ends the run early (line 585).
\<close>

definition doPerformSyncWith ::
    "(lenv \<Rightarrow> syncOptions \<Rightarrow> lstate \<Rightarrow> (obj list \<times> lstate) option) \<Rightarrow>
     nat \<Rightarrow> lenv \<Rightarrow> syncOptions \<Rightarrow> lstate \<Rightarrow> (obj list \<times> lstate) option" where
  "doPerformSyncWith run n e ops st =
    (if space ops = JUndefined \<or> mfields (mapping ops) = None then Some ([], st)
     else (let st0 = st\<lparr>added := 0, resultDocs := []\<rparr>
           in if findAllFails (menv e) tagElementClass
              then Some ([], emit (ELogError FindAllFailed) st0)
              else (case pageLoop n run e ops (JNum 0)
                           (st0\<lparr>allTagElements := findAllOfClass (menv e) (store (world st0)) tagElementClass\<rparr>) of
                      None \<Rightarrow> None
                    | Some (Inl f, st1) \<Rightarrow> Some (resultDocs st1, emit (ELogError f) st1)
                    | Some (Inr _, st1) \<Rightarrow> Some (resultDocs st1, st1))))"

text \<open>
  The recursion of \<^verbatim>\<open>doPerformSync\<close> through the contacts of an organisation. The
  bound counts the pages of a run and the nesting of runs.
\<close>

primrec doPerformSync ::
    "nat \<Rightarrow> lenv \<Rightarrow> syncOptions \<Rightarrow> lstate \<Rightarrow> (obj list \<times> lstate) option" where
  "doPerformSync 0 = doPerformSyncWith (\<lambda>e ops st. None) 0"
| "doPerformSync (Suc n) = doPerformSyncWith (doPerformSync n) (Suc n)"

section \<open>\<^verbatim>\<open>synchronizeUsers\<close> and \<^verbatim>\<open>performSynchronization\<close> (lines 417-453, 755-797)\<close>

text \<open>
  Constants of the contact and core packages that the new documents of line 780-792
  carry; no claim reads them.
\<close>

definition contactsSpace :: jvalue where
  "contactsSpace = JStr ''contact:space:Contacts''"

definition modelSpace :: jvalue where
  "modelSpace = JStr ''core:space:Model''"

definition accountRoleUser :: jvalue where
  "accountRoleUser = JNum 0"

text \<open>\<^verbatim>\<open>userList.size < totalUsers\<close>: false when the total is not a number.\<close>

fun sizeLess :: "nat \<Rightarrow> jvalue \<Rightarrow> bool" where
  "sizeLess n (JNum t) = (int n < t)"
| "sizeLess n v = False"

text \<open>The users of one page (lines 777-795): the map of users, and the world.\<close>

fun syncUsersOfPage ::
    "lenv \<Rightarrow> obj list \<Rightarrow> obj list \<Rightarrow> (jvalue \<times> jvalue) list \<Rightarrow> world \<Rightarrow>
     (jvalue \<times> jvalue) list result" where
  "syncUsersOfPage e allEmp [] users w = Ok users w"
| "syncUsersOfPage e allEmp (u # us) users w =
    (case (case find (\<lambda>it. strictEq (getField it ''email'') (getField u ''EMAIL'')) allEmp of
             Some acc \<Rightarrow> getField acc ''_id''
           | None \<Rightarrow> JUndefined) of
       JUndefined \<Rightarrow>
        (let employeeId = generateId (menv e) (nextId w);
             accountId = generateId (menv e) (Suc (nextId w));
             name = combineName e (getField u ''NAME'') (getField u ''LAST_NAME'')
         in case writeNow e
                   (TxCreateDoc employeeClass contactsSpace
                      [(''name'', name), (''avatar'', getField u ''PERSONAL_PHOTO''),
                       (''active'', getField u ''ACTIVE''), (''city'', getField u ''PERSONAL_CITY''),
                       (''createOn'', JNum (now (menv e)))] employeeId)
                   (w\<lparr>nextId := Suc (nextId w)\<rparr>) of
              Thrown f w' \<Rightarrow> Thrown f w'
            | Ok _ w1 \<Rightarrow>
               (case writeNow e
                       (TxCreateDoc employeeAccountClass modelSpace
                          [(''email'', getField u ''EMAIL''), (''name'', name),
                           (''employee'', employeeId), (''role'', accountRoleUser)] accountId)
                       (w1\<lparr>nextId := Suc (nextId w1)\<rparr>) of
                  Thrown f w' \<Rightarrow> Thrown f w'
                | Ok _ w2 \<Rightarrow>
                    syncUsersOfPage e allEmp us (AList.update (getField u ''ID'') accountId users) w2))
     | accountId \<Rightarrow>
         syncUsersOfPage e allEmp us (AList.update (getField u ''ID'') accountId users) w)"

text \<open>
  The loop of line 773 runs until the map has as many users as the remote side reports,
  which may be never: the first argument bounds the number of pages.
\<close>

primrec synchronizeUsers ::
    "nat \<Rightarrow> lenv \<Rightarrow> obj list \<Rightarrow> (jvalue \<times> jvalue) list \<Rightarrow> jvalue \<Rightarrow> jvalue \<Rightarrow> lstate \<Rightarrow>
     ((failure + (jvalue \<times> jvalue) list) \<times> lstate) option" where
  "synchronizeUsers 0 e allEmp users totalUsers next st =
    (if sizeLess (length users) totalUsers then None else Some (Inr users, st))"
| "synchronizeUsers (Suc n) e allEmp users totalUsers next st =
    (if sizeLess (length users) totalUsers
     then (let st1 = emit (ERemote (CallUserSearch next)) st
           in case userSearch e next of
                Inl f \<Rightarrow> Some (Inl f, st1)
              | Inr result \<Rightarrow>
                 (case syncUsersOfPage e allEmp (presult result) users (world st1) of
                    Thrown f w' \<Rightarrow> Some (Inl f, st1\<lparr>world := w'\<rparr>)
                  | Ok users' w' \<Rightarrow>
                      synchronizeUsers n e allEmp users' (ptotal result)
                        (case pnext result of None \<Rightarrow> JUndefined | Some x \<Rightarrow> x)
                        (st1\<lparr>world := w'\<rparr>)))
     else Some (Inr users, st))"

text \<open>
  What runs up front (lines 418-443): the fields of comments, the owner types, the
  employee accounts, the mappings, the users. Any of the calls may reject, and
  \<^verbatim>\<open>performSynchronization\<close> rejects with it.
\<close>

definition upFront ::
    "nat \<Rightarrow> lenv \<Rightarrow> syncOptions \<Rightarrow> lstate \<Rightarrow> ((failure + syncOptions) \<times> lstate) option" where
  "upFront n e ops st =
    (let st1 = emit (ERemote CallCommentFields) st
     in case commentFields e of
          Inl f \<Rightarrow> Some (Inl f, st1)
        | Inr commentFieldsResult \<Rightarrow>
           (let st2 = emit (ERemote CallOwnerTypes) st1
            in case ownerTypes e of
                 Inl f \<Rightarrow> Some (Inl f, st2)
               | Inr ownerTypesResult \<Rightarrow>
                  (if findAllFails (menv e) employeeAccountClass
                      \<or> findAllFails (menv e) entityMappingClass
                   then Some (Inl FindAllFailed, st2)
                   else (let allEmp = findAllOfClass (menv e) (store (world st2)) employeeAccountClass
                         in case synchronizeUsers n e allEmp [] (JNum 1) (JNum 0) st2 of
                              None \<Rightarrow> None
                            | Some (Inl f, st3) \<Rightarrow> Some (Inl f, st3)
                            | Some (Inr users, st3) \<Rightarrow>
                                Some (Inr (ops\<lparr>ownerTypeValues := ownerTypesResult,
                                               commentFieldKeys := map fst commentFieldsResult,
                                               allMappings := entityMappings e,
                                               allEmployee := allEmp,
                                               userList := users\<rparr>), st3)))))"

definition performSynchronization ::
    "nat \<Rightarrow> lenv \<Rightarrow> syncOptions \<Rightarrow> lstate \<Rightarrow> ((failure + obj list) \<times> lstate) option" where
  "performSynchronization n e ops st =
    (case upFront n e ops st of
       None \<Rightarrow> None
     | Some (Inl f, st1) \<Rightarrow> Some (Inl f, st1)
     | Some (Inr ops', st1) \<Rightarrow>
        (case doPerformSync n e ops' st1 of
           None \<Rightarrow> None
         | Some (docs, st2) \<Rightarrow> Some (Inr docs, st2)))"

section \<open>Notions the properties are stated with\<close>

text \<open>An entry of \<open>raw\<close> that the diff takes: not an excluded key, different, not null.\<close>

definition differs :: "(string \<Rightarrow> jvalue) \<Rightarrow> string \<times> jvalue \<Rightarrow> bool" where
  "differs dv entry =
    (fst entry \<notin> set excludedKeys \<and> \<not> deepEqual (dv (fst entry)) (snd entry) \<and>
     \<not> isNullish (snd entry))"

section \<open>Example data\<close>

definition commentClass :: jvalue where
  "commentClass = JStr ''chunter:class:Comment''"

text \<open>Collaborators that never fail; the upload answers 200 with a blob reference.\<close>

definition exEnv :: env where
  "exEnv = \<lparr>now = 1000,
            isAttachedDoc = (\<lambda>c. c = commentClass \<or> c = attachmentClass),
            isDerived = (\<lambda>c cl. False),
            findAllFails = (\<lambda>c. False),
            removeFails = (\<lambda>i. False),
            uploadBlob = (\<lambda>f. Inr (200, ''blob-'' @ fname f)),
            commitFails = False,
            generateId = (\<lambda>n. JStr (''gen'' @ replicate n CHR ''+''))\<rparr>"

definition exWorld :: "store \<Rightarrow> world" where
  "exWorld st = \<lparr>store = st, queue = [], history = [], uploads = [], errlog = [], nextId = 0\<rparr>"

text \<open>A person synchronised by an earlier run, at time 1000, from the remote record 1.\<close>

definition exParent :: obj where
  "exParent =
    [(''_id'', JStr ''p''), (''_class'', JStr ''contact:class:Person''), (''space'', JStr ''s''),
     (''name'', JStr ''Ann''), (''bitrixId'', JStr ''1''), (''type'', JStr ''crm.lead''),
     (syncMixin, JObj [(''type'', JStr ''crm.lead''), (''bitrixId'', JStr ''1''),
                       (''rawData'', JNull), (''syncTime'', JNum 1000)])]"

text \<open>A comment of that person stored by an earlier run, for the remote comment \<open>b\<close>.\<close>

definition exStored :: "string \<Rightarrow> string \<Rightarrow> obj" where
  "exStored i b =
    [(''_id'', JStr i), (''_class'', commentClass), (''space'', JStr ''s''),
     (''attachedTo'', JStr ''p''), (''attachedToClass'', JStr ''contact:class:Person''),
     (''collection'', JStr ''comments''), (''message'', JStr ''hello''),
     (''bitrixId'', JStr b), (''type'', JStr ''lead''),
     (syncMixin, JObj [(''type'', JStr ''lead''), (''bitrixId'', JStr b), (''rawData'', JUndefined)])]"

text \<open>The pending comment the conversion produces for the remote comment \<open>b\<close>.\<close>

definition exPending :: "string \<Rightarrow> string \<Rightarrow> obj" where
  "exPending i b =
    [(''_id'', JStr i), (''_class'', commentClass), (''message'', JStr ''hello''),
     (''bitrixId'', JStr b), (''type'', JStr ''lead''),
     (''attachedTo'', JStr ''p''), (''attachedToClass'', JStr ''contact:class:Person''),
     (''collection'', JStr ''comments''), (''space'', JStr ''s'')]"

text \<open>
  A pending attachment of the person for the remote file \<open>b\<close>: its loader returns a
  file of 3 bytes named \<open>n\<close>, its mutator takes name, size and type from the file.
\<close>

definition exFile :: "string \<Rightarrow> jsFile" where
  "exFile n = \<lparr>fname = n, fsize = 3, ftype = ''text/plain'', flastModified = 7\<rparr>"

definition exBlob :: "string \<Rightarrow> string \<Rightarrow> string \<Rightarrow> blob" where
  "exBlob i b n =
    \<lparr>ed = [(''_id'', JStr i), (''_class'', attachmentClass), (''attachedTo'', JStr ''p''),
            (''attachedToClass'', JStr ''contact:class:Person''), (''bitrixId'', JStr b),
            (''collection'', JStr ''attachments''), (''file'', JStr []), (''lastModified'', JNum 0),
            (''name'', JStr n), (''size'', JNum 3), (''space'', JStr ''s''), (''type'', JStr ''file'')],
      op = Inr (Some (exFile n)),
      upd = (\<lambda>f attach. setField ''name'' (JStr (fname f))
                           (setField ''size'' (JNum (fsize f))
                             (setField ''type'' (JStr (ftype f)) attach)))\<rparr>"

text \<open>The conversion result for the remote record 1, with what is pending.\<close>

definition exResult :: "obj list \<Rightarrow> blob list \<Rightarrow> convertResult" where
  "exResult pending bs =
    \<lparr>document = [(''_id'', JStr ''fresh''), (''_class'', JStr ''contact:class:Person''),
                  (''space'', JStr ''s''), (''name'', JStr ''Ann''), (''bitrixId'', JStr ''1''),
                  (''type'', JStr ''crm.lead'')],
      rawData = JNull, mixins = [], extraDocs = [], extraSync = pending, blobs = bs\<rparr>"

text \<open>A lead mapping without comments, a remote side with one page of one record.\<close>

definition exRecord :: obj where
  "exRecord = [(''ID'', JStr ''1''), (''TITLE'', JStr ''Ann'')]"

definition exOptions :: syncOptions where
  "exOptions =
    \<lparr>space = JStr ''s'',
      mapping = \<lparr>mtype = ''crm.lead'', mcomments = False,
                  mofClass = JStr ''contact:class:Person'', mfields = Some []\<rparr>,
      limit = 5, direction = ASC, extraFilter = None, syncPeriod = None, monitor = EMonitor,
      ownerTypeValues = [], commentFieldKeys = [], allMappings = [], allEmployee = [],
      userList = []\<rparr>"

definition exLenv :: lenv where
  "exLenv =
    \<lparr>menv = exEnv,
      listPage = (\<lambda>ops start. Inr \<lparr>presult = [exRecord], ptotal = JNum 1, pnext = None\<rparr>),
      convert = (\<lambda>ops r existingDoc tags. Inr (exResult [] [])),
      downloadComments = (\<lambda>ops res. Inr res),
      writeFails = (\<lambda>t. False),
      commentFields = Inr [],
      ownerTypes = Inr [],
      userSearch = (\<lambda>start. Inr \<lparr>presult = [], ptotal = JNum 0, pnext = None\<rparr>),
      entityMappings = [],
      combineName = (\<lambda>first last. first)\<rparr>"

definition exState :: "store \<Rightarrow> obj list \<Rightarrow> lstate" where
  "exState st existing =
    \<lparr>world = exWorld st, trace = [], added = 0, resultDocs = [], allTagElements = [],
      existingDocuments = existing, synchronized = 0\<rparr>"

text \<open>The conversion stage of a record: \<^verbatim>\<open>convert\<close>, then the comments if the mapping has them.\<close>

definition conversion :: "lenv \<Rightarrow> syncOptions \<Rightarrow> obj \<Rightarrow> obj option \<Rightarrow> obj list \<Rightarrow> failure + convertResult" where
  "conversion e ops r existingDoc tags =
    (case convert e ops r existingDoc tags of
       Inl f \<Rightarrow> Inl f
     | Inr res0 \<Rightarrow> if mcomments (mapping ops) then downloadComments e ops res0 else Inr res0)"

text \<open>The local document of a record, and whether the record is skipped (lines 498-513).\<close>

definition existingDocOf :: "lstate \<Rightarrow> obj \<Rightarrow> obj option" where
  "existingDocOf st r =
    (case findExisting (existingDocuments st) r of
       None \<Rightarrow> None
     | Some i \<Rightarrow> Some (existingDocuments st ! i))"

definition skipped :: "syncOptions \<Rightarrow> int \<Rightarrow> lstate \<Rightarrow> obj \<Rightarrow> bool" where
  "skipped ops syncTime st r =
    (case existingDocOf st r of None \<Rightarrow> False | Some d \<Rightarrow> suppressed ops syncTime d)"

text \<open>The events of the up-front phase.\<close>

definition upFrontEvent :: "event \<Rightarrow> bool" where
  "upFrontEvent ev =
    (case ev of
       ERemote CallCommentFields \<Rightarrow> True
     | ERemote CallOwnerTypes \<Rightarrow> True
     | ERemote (CallUserSearch x) \<Rightarrow> True
     | _ \<Rightarrow> False)"

text \<open>The event of the download of comments, when the mapping has comments.\<close>

definition commentsEvent :: "syncOptions \<Rightarrow> event list" where
  "commentsEvent ops = (if mcomments (mapping ops) then [EComments] else [])"

text \<open>
  The state of the loop once the record \<open>r\<close> is converted: the events of the load, of the
  conversion and of the download of comments are there, and the record is counted as seen.
\<close>

definition afterConversion :: "syncOptions \<Rightarrow> obj \<Rightarrow> lstate \<Rightarrow> lstate" where
  "afterConversion ops r st =
    st\<lparr>trace := trace st @ [ELoad (synchronized st) (added st), EConvert r] @ commentsEvent ops,
       synchronized := synchronized st + 1\<rparr>"

text \<open>A mapping of companies, with a mapping of contacts defined.\<close>

definition exCompanyOptions :: syncOptions where
  "exCompanyOptions =
    exOptions\<lparr>mapping := \<lparr>mtype = companyType, mcomments = False,
                             mofClass = JStr ''contact:class:Organization'', mfields = Some []\<rparr>,
              allMappings := [\<lparr>mtype = contactType, mcomments = False,
                               mofClass = JStr ''contact:class:Person'', mfields = Some []\<rparr>]\<rparr>"

section \<open>Notions for the repeated merge\<close>

text \<open>What \<^verbatim>\<open>updateMixins\<close> records for one mixin of the result, for the existing document and the identifier of \<^verbatim>\<open>resultDoc\<close>.\<close>

definition mixinTx :: "obj \<Rightarrow> jvalue \<Rightarrow> string \<times> obj \<Rightarrow> tx list" where
  "mixinTx existing i entry =
    (if \<not> hasMixin (Plain existing) (fst entry) then [TxCreateMixin i (fst entry) (snd entry)]
     else if diffFields (readField (As existing (fst entry))) (snd entry) [] \<noteq> []
       then [TxUpdateMixin (readField (As existing (fst entry)) ''_id'') (fst entry)
               (diffFields (readField (As existing (fst entry))) (snd entry) [])]
       else [])"

text \<open>What \<^verbatim>\<open>updateDoc\<close> records for the existing document.\<close>

definition mainTx :: "obj \<Rightarrow> obj \<Rightarrow> tx list" where
  "mainTx existing doc =
    (if diffFields (getField existing) doc [] \<noteq> []
     then [TxUpdateDoc (getField existing ''_id'') (diffFields (getField existing) doc [])]
     else [])"

text \<open>The identifier of a document.\<close>

definition idOf :: "obj \<Rightarrow> jvalue" where
  "idOf d = getField d ''_id''"

text \<open>
  What \<^verbatim>\<open>updateMixin\<close> records for the sync trait of the local sub-document \<open>x\<close>
  (lines 240-250): the trait is created with the data of the pending document \<open>v\<close>, or
  updated with what differs, or left alone.
\<close>

definition traitTx :: "obj \<Rightarrow> obj \<Rightarrow> tx list" where
  "traitTx x v =
    (if \<not> hasMixin (As x syncMixin) syncMixin
     then [TxCreateMixin (readField (As x syncMixin) ''_id'') syncMixin (syncDataOf v)]
     else if diffFields (readField (As x syncMixin)) (syncDataOf v) [] \<noteq> []
       then [TxUpdateMixin (readField (As x syncMixin) ''_id'') syncMixin
               (diffFields (readField (As x syncMixin)) (syncDataOf v) [])]
       else [])"

text \<open>
  A pending document \<open>v\<close> that found the local document \<open>x\<close> is diff-updated: the fields
  of \<open>x\<close> that differ are updated under the identifier of \<open>x\<close>, then the sync trait. A
  pending document that found none is created: the document in its collection, then the
  sync trait.
\<close>

definition updateOps :: "obj \<Rightarrow> obj \<Rightarrow> tx list" where
  "updateOps x v = mainTx x v @ traitTx (applyUpdate x (diffFields (getField x) v [])) v"

definition createOps :: "obj \<Rightarrow> tx list" where
  "createOps v = [addCollectionOf v, TxCreateMixin (getField v ''_id'') syncMixin (syncDataOf v)]"

text \<open>
  The reconciliation as the specification describes it, to compare \<open>syncPending\<close> with:
  going through the pending documents in order, each takes the first local document that
  carries its remote id and that no earlier pending document has taken. The result pairs
  every pending document with the local document it took, if any, and gives the local
  documents that none has taken.
\<close>

fun reconcile :: "obj list \<Rightarrow> obj list \<Rightarrow> (obj \<times> obj option) list \<times> obj list" where
  "reconcile pool [] = ([], pool)"
| "reconcile pool (v # vals) =
    (case find (\<lambda>it. matches it v) pool of
       None \<Rightarrow> ((v, None) # fst (reconcile pool vals), snd (reconcile pool vals))
     | Some x \<Rightarrow>
         ((v, Some x) # fst (reconcile (remove1 x pool) vals), snd (reconcile (remove1 x pool) vals)))"

text \<open>What is recorded for a pair of the reconciliation, with the parent \<open>parent\<close>.\<close>

definition recorded :: "jvalue \<Rightarrow> obj \<times> obj option \<Rightarrow> tx list" where
  "recorded parent p =
    (case snd p of
       Some x \<Rightarrow> updateOps x (setField ''attachedTo'' parent (fst p))
     | None \<Rightarrow> createOps (setField ''attachedTo'' parent (fst p)))"

text \<open>A conversion result with no extra documents, no pending sub-documents and no pending attachments.\<close>

definition plainResult :: "convertResult \<Rightarrow> bool" where
  "plainResult R = (extraDocs R = [] \<and> extraSync R = [] \<and> blobs R = [])"

text \<open>The effect of a transaction on the document it is for (see \<open>applyTx\<close>).\<close>

definition docEffect :: "tx \<Rightarrow> obj \<Rightarrow> obj" where
  "docEffect t d =
    (case t of
       TxUpdateDoc i u \<Rightarrow> applyUpdate d u
     | TxCreateMixin i m a \<Rightarrow> setField m (JObj a) d
     | TxUpdateMixin i m u \<Rightarrow> setField m (JObj (applyUpdate (mixinData d m) u)) d
     | _ \<Rightarrow> d)"

text \<open>A transaction that changes the document \<open>i\<close> and leaves its identifier alone.\<close>

definition targets :: "jvalue \<Rightarrow> tx \<Rightarrow> bool" where
  "targets i t =
    (case t of
       TxUpdateDoc j u \<Rightarrow> j = i \<and> ''_id'' \<notin> fst ` set u
     | TxCreateMixin j m a \<Rightarrow> j = i \<and> m \<noteq> ''_id''
     | TxUpdateMixin j m u \<Rightarrow> j = i \<and> m \<noteq> ''_id''
     | _ \<Rightarrow> False)"

text \<open>The data of a trait of the stored document once the transactions of \<open>mixinTx\<close> are applied.\<close>

definition traitAfter :: "obj \<Rightarrow> string \<times> obj \<Rightarrow> obj" where
  "traitAfter X entry =
    (if \<not> hasMixin (Plain X) (fst entry) then snd entry
     else applyUpdate (mixinData X (fst entry))
            (diffFields (readField (As X (fst entry))) (snd entry) []))"

text \<open>The identifiers of the traits a merge of the result checks.\<close>

definition mixinKeys :: "convertResult \<Rightarrow> string set" where
  "mixinKeys R = insert syncMixin (fst ` set (mixins R))"

text \<open>A well-formed conversion result: the keys of an object are distinct, and the identifiers of traits are not names of fields (of the document, of a trait, or \<^verbatim>\<open>_id\<close>).\<close>

definition wellFormedResult :: "convertResult \<Rightarrow> bool" where
  "wellFormedResult R =
    (distinct (map fst (document R)) \<and> distinct (map fst (mixins R)) \<and>
     (\<forall>entry\<in>set (mixins R).
        distinct (map fst (snd entry)) \<and> (\<forall>k\<in>fst ` set (snd entry). k \<notin> mixinKeys R) \<and>
        ''_id'' \<notin> fst ` set (snd entry)) \<and>
     (\<forall>k\<in>fst ` set (document R). k \<notin> mixinKeys R) \<and>
     ''_id'' \<notin> mixinKeys R \<and> ''type'' \<notin> mixinKeys R \<and> ''bitrixId'' \<notin> mixinKeys R \<and>
     ''rawData'' \<notin> mixinKeys R \<and> ''syncTime'' \<notin> mixinKeys R)"

text \<open>The data of the sync trait of lines 110-115.\<close>

definition syncData :: "env \<Rightarrow> convertResult \<Rightarrow> obj" where
  "syncData e R =
      [(''type'', getField (document R) ''type''),
       (''bitrixId'', getField (document R) ''bitrixId''),
       (''rawData'', rawData R),
       (''syncTime'', JNum (now e))]"

section \<open>Properties of the field diff\<close>


lemma deepEqual_refl: "deepEqual a a"
proof (induction a)
  case (JArr xs)
  then show ?case by (simp add: list_all2_same)
next
  case (JObj a)
  have "case map_of a k of None \<Rightarrow> False
          | Some v \<Rightarrow> (case map_of a k of None \<Rightarrow> False | Some v' \<Rightarrow> deepEqual v v')"
    if "k \<in> fst ` set a" for k
  proof -
    have "map_of a k \<noteq> None" using that by (simp add: map_of_eq_None_iff)
    then obtain v where v: "map_of a k = Some v" by blast
    then have kv: "(k, v) \<in> set a" by (rule map_of_SomeD)
    then have "deepEqual v v" using JObj [of "(k, v)" v] by simp
    with v show ?thesis by simp
  qed
  then show ?case by simp
qed simp_all

lemma deepEqual_JNum [simp]: "deepEqual a (JNum n) \<longleftrightarrow> a = JNum n"
  by (cases a) simp_all

lemma getField_setField:
  "getField (setField k v d) k' = (if k' = k then v else getField d k')"
  by (simp add: getField_def setField_def update_conv')

lemma set_setField_subset: "set (setField k v d) \<subseteq> insert (k, v) (set d)"
  unfolding setField_def by (induction d) auto

lemma setField_fresh: "k \<notin> fst ` set d \<Longrightarrow> setField k v d = d @ [(k, v)]"
  unfolding setField_def by (induction d) auto

lemma diffFields_subset:
  "set (diffFields dv raw acc) \<subseteq> set acc \<union> {e \<in> set raw. differs dv e}"
proof (induction raw arbitrary: acc)
  case Nil
  then show ?case by simp
next
  case (Cons e raw)
  obtain k v where e: "e = (k, v)" by (cases e)
  show ?case
    using Cons.IH [of acc] Cons.IH [of "setField k v acc"] set_setField_subset [of k v acc]
    unfolding e by (auto simp: differs_def)
qed

lemma diffFields_filter:
  "distinct (map fst raw) \<Longrightarrow> fst ` set acc \<inter> fst ` set raw = {} \<Longrightarrow>
   diffFields dv raw acc = acc @ filter (differs dv) raw"
proof (induction raw arbitrary: acc)
  case Nil
  then show ?case by simp
next
  case (Cons e raw)
  obtain k v where e: "e = (k, v)" by (cases e)
  have k: "k \<notin> fst ` set acc" "k \<notin> fst ` set raw" using Cons.prems unfolding e by auto
  have d: "distinct (map fst raw)" using Cons.prems by simp
  have 1: "fst ` set acc \<inter> fst ` set raw = {}" using Cons.prems by auto
  have 2: "fst ` set (acc @ [(k, v)]) \<inter> fst ` set raw = {}" using Cons.prems k unfolding e by auto
  show ?case
    using Cons.IH [OF d 1] Cons.IH [OF d 2] k
    unfolding e by (simp add: differs_def setField_fresh)
qed

lemma getField_applyUpdate_other:
  "X \<notin> fst ` set u \<Longrightarrow> getField (applyUpdate d u) X = getField d X"
  by (induction u arbitrary: d) (auto simp: getField_setField)

lemma getField_applyUpdate_in:
  "distinct (map fst u) \<Longrightarrow> (k, v) \<in> set u \<Longrightarrow> getField (applyUpdate d u) k = v"
proof (induction u arbitrary: d)
  case Nil
  then show ?case by simp
next
  case (Cons e u)
  obtain k' v' where e: "e = (k', v')" by (cases e)
  show ?case
  proof (cases "(k, v) = e")
    case True
    then have "k \<notin> fst ` set u" using Cons.prems by force
    then show ?thesis using True e by (simp add: getField_applyUpdate_other getField_setField)
  next
    case False
    then show ?thesis using Cons e by auto
  qed
qed

lemma getField_distinct: "distinct (map fst raw) \<Longrightarrow> (k, v) \<in> set raw \<Longrightarrow> getField raw k = v"
  by (simp add: getField_def)


lemma diff_idem:
  assumes "distinct (map fst raw)"
  shows "diffFields (getField (applyUpdate doc (diffFields (getField doc) raw []))) raw [] = []"
proof -
  let ?u = "filter (differs (getField doc)) raw"
  have u: "diffFields (getField doc) raw [] = ?u"
    using diffFields_filter [OF assms, of "[]"] by simp
  have du: "distinct (map fst ?u)" using assms by (simp add: distinct_map_filter)
  have "\<not> differs (getField (applyUpdate doc ?u)) e" if e: "e \<in> set raw" for e
  proof (cases "differs (getField doc) e")
    case True
    then have "(fst e, snd e) \<in> set ?u" using e by simp
    then have "getField (applyUpdate doc ?u) (fst e) = snd e"
      using du by (rule getField_applyUpdate_in [rotated])
    then show ?thesis by (simp add: differs_def deepEqual_refl)
  next
    case False
    have "fst e \<notin> fst ` set ?u"
    proof
      assume "fst e \<in> fst ` set ?u"
      then obtain e' where e': "e' \<in> set raw" "differs (getField doc) e'" "fst e' = fst e" by auto
      then have "e' = e" using assms e by (metis eq_key_imp_eq_value prod.collapse)
      with e' False show False by simp
    qed
    then have "getField (applyUpdate doc ?u) (fst e) = getField doc (fst e)"
      by (rule getField_applyUpdate_other)
    with False show ?thesis by (simp add: differs_def)
  qed
  then have "filter (differs (getField (applyUpdate doc ?u))) raw = []"
    by (simp add: filter_empty_conv)
  then show ?thesis
    using diffFields_filter [OF assms, of "[]" "getField (applyUpdate doc ?u)"] u by simp
qed

section \<open>Properties of the reconciliation of attached documents\<close>


lemma findIndex_Some: "findIndex p xs = Some i \<Longrightarrow> i < length xs \<and> p (xs ! i)"
  by (induction xs arbitrary: i) (auto split: if_splits option.splits)

lemma findIndex_None: "findIndex p xs = None \<Longrightarrow> x \<in> set xs \<Longrightarrow> \<not> p x"
  by (induction xs) (auto split: if_splits option.splits)

lemma set_spliceOut_subset: "set (spliceOut i xs) \<subseteq> set xs"
  unfolding spliceOut_def by (auto dest: in_set_takeD in_set_dropD)

lemma set_spliceOut_keeps:
  assumes "i < length xs" "x \<in> set xs" "x \<noteq> xs ! i"
  shows "x \<in> set (spliceOut i xs)"
proof -
  have "set xs = set (take i xs @ xs ! i # drop (Suc i) xs)"
    by (rule arg_cong [OF id_take_nth_drop [OF assms(1)]])
  also have "\<dots> = insert (xs ! i) (set (spliceOut i xs))" by (simp add: spliceOut_def)
  finally show ?thesis using assms by simp
qed




lemma diffFields_no_id: "''_id'' \<notin> fst ` set (diffFields dv raw [])"
  using diffFields_subset [of dv raw "[]"] by (auto simp: differs_def excludedKeys_def)

lemma enqueue_simps [simp]: "store (enqueue t w) = store w" "history (enqueue t w) = history w"
  "queue (enqueue t w) = queue w @ [t]" "uploads (enqueue t w) = uploads w"
  "errlog (enqueue t w) = errlog w" "nextId (enqueue t w) = nextId w"
  by (simp_all add: enqueue_def)

text \<open>What updateDoc and updateMixin add to the queue.\<close>

lemma updateDoc_queue:
  "queue (snd (updateDoc d raw w)) = queue w \<or>
   (\<exists>u. queue (snd (updateDoc d raw w)) = queue w @ [TxUpdateDoc (getField d ''_id'') u] \<and>
        ''_id'' \<notin> fst ` set u)"
  using diffFields_no_id [of "getField d" raw] by (auto simp: updateDoc_def Let_def)

lemma updateDoc_rest:
  "store (snd (updateDoc d raw w)) = store w"
  "history (snd (updateDoc d raw w)) = history w"
  by (simp_all add: updateDoc_def Let_def)

lemma updateMixin_queue:
  "queue (updateMixin d raw m w) = queue w \<or>
   (\<exists>i u. queue (updateMixin d raw m w) = queue w @ [TxUpdateMixin i m u]) \<or>
   (\<exists>i. queue (updateMixin d raw m w) = queue w @ [TxCreateMixin i m raw])"
  by (auto simp: updateMixin_def Let_def)

lemma updateMixin_rest:
  "store (updateMixin d raw m w) = store w"
  "history (updateMixin d raw m w) = history w"
  by (simp_all add: updateMixin_def Let_def)

lemma updateAttachedDoc_Some_queue:
  "\<exists>delta. queue (snd (updateAttachedDoc (Some x) v w)) = queue w @ delta \<and>
     (\<forall>t\<in>set delta.
        (case t of
          TxUpdateDoc i u \<Rightarrow> i = getField x ''_id'' \<and> ''_id'' \<notin> fst ` set u
        | TxUpdateMixin i m u \<Rightarrow> m = syncMixin
        | TxCreateMixin i m a \<Rightarrow> m = syncMixin
        | _ \<Rightarrow> False))"
proof -
  obtain x' w1 where u: "updateDoc x v w = (x', w1)" by (cases "updateDoc x v w")
  have r: "snd (updateAttachedDoc (Some x) v w) = updateMixin (As x' syncMixin) (syncDataOf v) syncMixin w1"
    by (simp add: updateAttachedDoc_def u)
  from updateDoc_queue [of x v w] u
  consider "queue w1 = queue w"
    | u' where "queue w1 = queue w @ [TxUpdateDoc (getField x ''_id'') u']" "''_id'' \<notin> fst ` set u'"
    by auto
  then obtain d1 where d1: "queue w1 = queue w @ d1"
    "\<forall>t\<in>set d1. (case t of
          TxUpdateDoc i u \<Rightarrow> i = getField x ''_id'' \<and> ''_id'' \<notin> fst ` set u
        | TxUpdateMixin i m u \<Rightarrow> m = syncMixin
        | TxCreateMixin i m a \<Rightarrow> m = syncMixin
        | _ \<Rightarrow> False)"
  proof cases
    case 1
    then show ?thesis using that [of "[]"] by simp
  next
    case 2
    then show ?thesis using that [of "[TxUpdateDoc (getField x ''_id'') u']"] by simp
  qed
  from updateMixin_queue [of "As x' syncMixin" "syncDataOf v" syncMixin w1]
  obtain d2 where d2: "queue (updateMixin (As x' syncMixin) (syncDataOf v) syncMixin w1) = queue w1 @ d2"
    "\<forall>t\<in>set d2. (case t of
          TxUpdateDoc i u \<Rightarrow> i = getField x ''_id'' \<and> ''_id'' \<notin> fst ` set u
        | TxUpdateMixin i m u \<Rightarrow> m = syncMixin
        | TxCreateMixin i m a \<Rightarrow> m = syncMixin
        | _ \<Rightarrow> False)"
  proof (elim disjE exE, goal_cases)
    case 1
    then show ?case using that [of "[]"] by simp
  next
    case (2 i u)
    then show ?case using that [of "[TxUpdateMixin i syncMixin u]"] by simp
  next
    case (3 i)
    then show ?case using that [of "[TxCreateMixin i syncMixin (syncDataOf v)]"] by simp
  qed
  show ?thesis
    unfolding r using d1 d2 by (intro exI [of _ "d1 @ d2"]) auto
qed

lemma updateAttachedDoc_rest:
  "store (snd (updateAttachedDoc ex v w)) = store w"
  "history (snd (updateAttachedDoc ex v w)) = history w"
proof -
  show "store (snd (updateAttachedDoc ex v w)) = store w"
  proof (cases ex)
    case None
    then show ?thesis by (simp add: updateAttachedDoc_def)
  next
    case (Some x)
    obtain x' w1 where u: "updateDoc x v w = (x', w1)" by (cases "updateDoc x v w")
    then have "store w1 = store w" using updateDoc_rest(1) [of x v w] by simp
    then show ?thesis using Some u by (simp add: updateAttachedDoc_def updateMixin_rest)
  qed
  show "history (snd (updateAttachedDoc ex v w)) = history w"
  proof (cases ex)
    case None
    then show ?thesis by (simp add: updateAttachedDoc_def)
  next
    case (Some x)
    obtain x' w1 where u: "updateDoc x v w = (x', w1)" by (cases "updateDoc x v w")
    then have "history w1 = history w" using updateDoc_rest(2) [of x v w] by simp
    then show ?thesis using Some u by (simp add: updateAttachedDoc_def updateMixin_rest)
  qed
qed

lemma updateAttachedDoc_None_queue:
  "queue (snd (updateAttachedDoc None v w)) =
     queue w @ [addCollectionOf v, TxCreateMixin (getField v ''_id'') syncMixin (syncDataOf v)]"
  by (simp add: updateAttachedDoc_def)


lemma syncDataOf_attachedTo [simp]: "syncDataOf (setField ''attachedTo'' p v) = syncDataOf v"
  by (simp add: syncDataOf_def getField_setField)

lemma id_attachedTo [simp]: "getField (setField ''attachedTo'' p v) ''_id'' = getField v ''_id''"
  by (simp add: getField_setField)

lemma syncPending_left_subset: "set (fst (syncPending parent pool vals w)) \<subseteq> set pool"
proof (induction vals arbitrary: pool w)
  case Nil
  then show ?case by simp
next
  case (Cons v vals)
  show ?case
  proof (cases "findIndex (\<lambda>it. matches it v) pool")
    case None
    then show ?thesis using Cons.IH [of pool] by (simp add: Let_def)
  next
    case (Some i)
    then show ?thesis
      using Cons.IH [of "spliceOut i pool"] set_spliceOut_subset [of i pool]
      by (simp add: Let_def) blast
  qed
qed

lemma syncPending_unmatched_left:
  "x \<in> set pool \<Longrightarrow> \<forall>v\<in>set vals. \<not> matches x v \<Longrightarrow> x \<in> set (fst (syncPending parent pool vals w))"
proof (induction vals arbitrary: pool w)
  case Nil
  then show ?case by simp
next
  case (Cons v vals)
  show ?case
  proof (cases "findIndex (\<lambda>it. matches it v) pool")
    case None
    then show ?thesis using Cons by (simp add: Let_def)
  next
    case (Some i)
    then have i: "i < length pool" "matches (pool ! i) v" using findIndex_Some by fastforce+
    then have "x \<noteq> pool ! i" using Cons.prems by auto
    then have "x \<in> set (spliceOut i pool)" using i Cons.prems by (simp add: set_spliceOut_keeps)
    then show ?thesis using Some Cons by (simp add: Let_def)
  qed
qed

lemma syncPending_rest:
  "store (snd (syncPending parent pool vals w)) = store w \<and>
   history (snd (syncPending parent pool vals w)) = history w"
proof (induction vals arbitrary: pool w)
  case Nil
  then show ?case by simp
next
  case (Cons v vals)
  show ?case
    by (cases "findIndex (\<lambda>it. matches it v) pool")
       (simp_all add: Let_def Cons.IH updateAttachedDoc_rest)
qed

lemma removeOrphans_ok:
  assumes "\<forall>i. \<not> removeFails e i"
  shows "\<exists>w'. removeOrphans e left w = Ok () w' \<and>
           store w' = filter (\<lambda>d. getField d ''_id'' \<notin> (\<lambda>x. getField x ''_id'') ` set left) (store w) \<and>
           history w' = history w @ map (\<lambda>x. TxRemoveDoc (getField x ''_id'')) left \<and>
           queue w' = queue w"
proof (induction left arbitrary: w)
  case Nil
  then show ?case by simp
next
  case (Cons x left)
  from Cons [of "removeNow (getField x ''_id'') w"] assms show ?case
    by (auto simp: removeNow_def hasId_def)
qed

text \<open>
  Claim C4. The update that \<^verbatim>\<open>updateDoc\<close> and \<^verbatim>\<open>updateMixin\<close> issue is the diff of
  the incoming object \<open>raw\<close> against the stored values \<open>dv\<close>: an entry is in it only when it
  is an entry of \<open>raw\<close> whose value is not null or undefined and is not deeply equal to the
  stored value. For a field \<open>X\<close> whose incoming value is null or undefined, applying the
  update changes the value of \<open>X\<close> in no object, and the update transaction changes it in
  no document of the store. No other update is issued: the queue grows by this update,
  or not at all when the diff is empty.
\<close>

theorem update_only_differing_nonnull:
  assumes "distinct (map fst raw)"
  shows "(\<forall>(k, v) \<in> set (diffFields dv raw []).
            (k, v) \<in> set raw \<and> k \<notin> set excludedKeys \<and> \<not> isNullish v \<and> \<not> deepEqual (dv k) v) \<and>
         (isNullish (getField raw X) \<longrightarrow>
            (\<forall>d. getField (applyUpdate d (diffFields dv raw [])) X = getField d X) \<and>
            (\<forall>i st. map (\<lambda>d. getField d X) (applyTx (TxUpdateDoc i (diffFields dv raw [])) st) =
                     map (\<lambda>d. getField d X) st)) \<and>
         queue (snd (updateDoc doc raw w)) =
           queue w @ (if diffFields (getField doc) raw [] = [] then []
                      else [TxUpdateDoc (getField doc ''_id'') (diffFields (getField doc) raw [])]) \<and>
         (hasMixin view mixin \<longrightarrow>
            queue (updateMixin view raw mixin w) =
              queue w @ (if diffFields (readField view) raw [] = [] then []
                         else [TxUpdateMixin (readField view ''_id'') mixin
                                 (diffFields (readField view) raw [])]))"
proof -
  have s: "set (diffFields dv raw []) \<subseteq> {e \<in> set raw. differs dv e}"
    using diffFields_subset [of dv raw "[]"] by simp
  have a: "\<forall>(k, v) \<in> set (diffFields dv raw []).
            (k, v) \<in> set raw \<and> k \<notin> set excludedKeys \<and> \<not> isNullish v \<and> \<not> deepEqual (dv k) v"
    using s by (auto simp: differs_def)
  have b: "getField (applyUpdate d (diffFields dv raw [])) X = getField d X"
    if n: "isNullish (getField raw X)" for d
  proof -
    have "X \<notin> fst ` set (diffFields dv raw [])"
    proof
      assume "X \<in> fst ` set (diffFields dv raw [])"
      then obtain v where "(X, v) \<in> set (diffFields dv raw [])" by auto
      with a have "(X, v) \<in> set raw" "\<not> isNullish v" by auto
      with assms n show False by (simp add: getField_distinct)
    qed
    then show ?thesis by (rule getField_applyUpdate_other)
  qed
  have c: "map (\<lambda>d. getField d X) (applyTx (TxUpdateDoc i (diffFields dv raw [])) st) =
           map (\<lambda>d. getField d X) st"
    if n: "isNullish (getField raw X)" for i st
    using b [OF n] by (simp add: comp_def)
  have d: "queue (snd (updateDoc doc raw w)) =
           queue w @ (if diffFields (getField doc) raw [] = [] then []
                      else [TxUpdateDoc (getField doc ''_id'') (diffFields (getField doc) raw [])])"
    by (simp add: updateDoc_def Let_def)
  have e: "queue (updateMixin view raw mixin w) =
              queue w @ (if diffFields (readField view) raw [] = [] then []
                         else [TxUpdateMixin (readField view ''_id'') mixin
                                 (diffFields (readField view) raw [])])"
    if "hasMixin view mixin"
    using that by (simp add: updateMixin_def Let_def)
  from a b c d e show ?thesis by blast
qed

theorem update_only_differing_nonnull_witness:
  "diffFields (getField exParent) [(''name'', JStr ''Bob''), (''space'', JStr ''t''), (''type'', JNull)] [] =
     [(''name'', JStr ''Bob'')] \<and>
   getField (applyUpdate exParent
      (diffFields (getField exParent) [(''name'', JStr ''Bob''), (''space'', JStr ''t''), (''type'', JNull)] []))
      ''type'' = JStr ''crm.lead''"
proof -
  have h: "distinct (map fst [(''name'', JStr ''Bob''), (''space'', JStr ''t''), (''type'', JNull)])"
    by simp
  have n: "isNullish (getField [(''name'', JStr ''Bob''), (''space'', JStr ''t''), (''type'', JNull)] ''type'')"
    by (simp add: isNullish_def getField_def)
  have v: "getField exParent ''type'' = JStr ''crm.lead''" by code_simp
  have d: "diffFields (getField exParent) [(''name'', JStr ''Bob''), (''space'', JStr ''t''), (''type'', JNull)] [] =
     [(''name'', JStr ''Bob'')]" by code_simp
  show ?thesis
    using update_only_differing_nonnull [OF h, of "getField exParent" "''type''"] n v d by simp
qed

lemma groupByClass_map_of:
  "map_of (groupByClass ds acc) cl =
     (if filter (\<lambda>d. getField d ''_class'' = cl) ds = [] then map_of acc cl
      else Some ((case map_of acc cl of None \<Rightarrow> [] | Some vals \<Rightarrow> vals) @
                 filter (\<lambda>d. getField d ''_class'' = cl) ds))"
  by (induction ds arbitrary: acc) (auto simp: update_conv')

lemma groupByClass_distinct:
  "distinct (map fst acc) \<Longrightarrow> distinct (map fst (groupByClass ds acc))"
  by (induction ds arbitrary: acc) (auto simp: distinct_update)

lemma groupByClass_iff:
  "(cl, vals) \<in> set (groupByClass ds []) \<longleftrightarrow>
     vals = filter (\<lambda>d. getField d ''_class'' = cl) ds \<and> vals \<noteq> []"
proof -
  have "distinct (map fst (groupByClass ds []))" by (simp add: groupByClass_distinct)
  then have "(cl, vals) \<in> set (groupByClass ds []) \<longleftrightarrow> map_of (groupByClass ds []) cl = Some vals"
    by simp
  then show ?thesis by (auto simp: groupByClass_map_of)
qed

lemma findIndex_None_find: "findIndex p xs = None \<longleftrightarrow> find p xs = None"
  by (induction xs) (auto split: option.splits)

lemma findIndex_Some_find:
  "findIndex p xs = Some i \<Longrightarrow> find p xs = Some (xs ! i) \<and> spliceOut i xs = remove1 (xs ! i) xs"
proof (induction xs arbitrary: i)
  case Nil
  then show ?case by simp
next
  case (Cons y ys)
  show ?case
  proof (cases "p y")
    case True
    then show ?thesis using Cons.prems by (simp add: spliceOut_def)
  next
    case False
    then obtain j where j: "findIndex p ys = Some j" "i = Suc j"
      using Cons.prems by (auto split: option.splits)
    from Cons.IH [OF j(1)] have ih: "find p ys = Some (ys ! j)" "spliceOut j ys = remove1 (ys ! j) ys"
      by simp_all
    have "p (ys ! j)" using j(1) findIndex_Some by fastforce
    then have "ys ! j \<noteq> y" using False by auto
    then show ?thesis using False j ih by (simp add: spliceOut_def)
  qed
qed

lemma updateAttachedDoc_Some_eq:
  "updateAttachedDoc (Some x) v w =
     (Some (applyUpdate x (diffFields (getField x) v [])), w\<lparr>queue := queue w @ updateOps x v\<rparr>)"
  by (simp add: updateAttachedDoc_def updateDoc_def updateMixin_def updateOps_def mainTx_def
      traitTx_def enqueue_def Let_def)

lemma updateAttachedDoc_None_eq:
  "updateAttachedDoc None v w = (None, w\<lparr>queue := queue w @ createOps v\<rparr>)"
  by (simp add: updateAttachedDoc_def createOps_def enqueue_def)

lemma syncPending_reconcile:
  "syncPending parent pool vals w =
     (snd (reconcile pool vals),
      w\<lparr>queue := queue w @ concat (map (recorded parent) (fst (reconcile pool vals)))\<rparr>)"
proof (induction vals arbitrary: pool w)
  case Nil
  then show ?case by simp
next
  case (Cons v vals)
  show ?case
  proof (cases "findIndex (\<lambda>it. matches it v) pool")
    case None
    then have f: "find (\<lambda>it. matches it v) pool = None" by (simp add: findIndex_None_find)
    show ?thesis
      using None f
      by (simp add: Let_def Cons.IH updateAttachedDoc_None_eq recorded_def split: prod.splits)
  next
    case (Some i)
    from findIndex_Some_find [OF Some]
    have f: "find (\<lambda>it. matches it v) pool = Some (pool ! i)"
      "spliceOut i pool = remove1 (pool ! i) pool" by simp_all
    show ?thesis
      using Some f
      by (simp add: Let_def Cons.IH updateAttachedDoc_Some_eq recorded_def split: prod.splits)
  qed
qed

lemma find_Some_set: "find p xs = Some x \<Longrightarrow> x \<in> set xs \<and> p x"
  by (induction xs) (auto split: if_splits)

lemma find_None_set: "find p xs = None \<Longrightarrow> x \<in> set xs \<Longrightarrow> \<not> p x"
  by (induction xs) (auto split: if_splits)

lemma reconcile_None:
  "find (\<lambda>it. matches it v) pool = None \<Longrightarrow>
   reconcile pool (v # vals) = ((v, None) # fst (reconcile pool vals), snd (reconcile pool vals))"
  by (simp split: prod.splits)

lemma reconcile_Some:
  "find (\<lambda>it. matches it v) pool = Some x \<Longrightarrow>
   reconcile pool (v # vals) =
     ((v, Some x) # fst (reconcile (remove1 x pool) vals), snd (reconcile (remove1 x pool) vals))"
  by (simp split: prod.splits)

lemma reconcile_fst: "map fst (fst (reconcile pool vals)) = vals"
proof (induction vals arbitrary: pool)
  case Nil
  then show ?case by simp
next
  case (Cons v vals)
  show ?case
    by (cases "find (\<lambda>it. matches it v) pool") (simp_all add: reconcile_None reconcile_Some Cons)
qed

lemma reconcile_left_subset: "set (snd (reconcile pool vals)) \<subseteq> set pool"
proof (induction vals arbitrary: pool)
  case Nil
  then show ?case by simp
next
  case (Cons v vals)
  show ?case
  proof (cases "find (\<lambda>it. matches it v) pool")
    case None
    then show ?thesis using Cons [of pool] by (simp split: prod.splits)
  next
    case (Some x)
    have "set (remove1 x pool) \<subseteq> set pool" by (rule set_remove1_subset)
    then show ?thesis using Some Cons [of "remove1 x pool"] by (auto split: prod.splits)
  qed
qed

lemma reconcile_pairs:
  assumes "distinct pool" "(v, m) \<in> set (fst (reconcile pool vals))"
  shows "case m of
           Some x \<Rightarrow> x \<in> set pool \<and> matches x v \<and> x \<notin> set (snd (reconcile pool vals))
         | None \<Rightarrow> \<forall>x\<in>set (snd (reconcile pool vals)). \<not> matches x v"
  using assms
proof (induction vals arbitrary: pool)
  case Nil
  then show ?case by simp
next
  case (Cons v0 vals)
  show ?case
  proof (cases "find (\<lambda>it. matches it v0) pool")
    case None
    have r: "reconcile pool (v0 # vals) =
               ((v0, None) # fst (reconcile pool vals), snd (reconcile pool vals))"
      using None by simp
    show ?thesis
    proof (cases "(v, m) = (v0, None)")
      case True
      have "\<forall>x\<in>set (snd (reconcile pool vals)). \<not> matches x v0"
        using find_None_set [OF None] reconcile_left_subset [of pool vals] by blast
      then show ?thesis unfolding r using True by (auto split: option.splits)
    next
      case False
      then have "(v, m) \<in> set (fst (reconcile pool vals))" using Cons.prems(2) unfolding r by auto
      from Cons.IH [OF Cons.prems(1) this] show ?thesis unfolding r by (auto split: option.splits)
    qed
  next
    case (Some x)
    have r: "reconcile pool (v0 # vals) =
               ((v0, Some x) # fst (reconcile (remove1 x pool) vals), snd (reconcile (remove1 x pool) vals))"
      using Some by simp
    have x: "x \<in> set pool" "matches x v0" using find_Some_set [OF Some] by simp_all
    have d: "distinct (remove1 x pool)" using Cons.prems(1) by simp
    have sub: "set (snd (reconcile (remove1 x pool) vals)) \<subseteq> set (remove1 x pool)"
      by (rule reconcile_left_subset)
    have xn: "x \<notin> set (remove1 x pool)" using Cons.prems(1) by simp
    show ?thesis
    proof (cases "(v, m) = (v0, Some x)")
      case True
      then show ?thesis unfolding r using x sub xn by auto
    next
      case False
      then have in': "(v, m) \<in> set (fst (reconcile (remove1 x pool) vals))"
        using Cons.prems(2) unfolding r by auto
      have "set (remove1 x pool) \<subseteq> set pool" by (rule set_remove1_subset)
      with Cons.IH [OF d in'] show ?thesis unfolding r by (auto split: option.splits)
    qed
  qed
qed

lemma reconcile_unmatched_left:
  "x \<in> set pool \<Longrightarrow> \<forall>v\<in>set vals. \<not> matches x v \<Longrightarrow> x \<in> set (snd (reconcile pool vals))"
proof (induction vals arbitrary: pool)
  case Nil
  then show ?case by simp
next
  case (Cons v vals)
  show ?case
  proof (cases "find (\<lambda>it. matches it v) pool")
    case None
    then show ?thesis using Cons by (simp split: prod.splits)
  next
    case (Some y)
    have "matches y v" using find_Some_set [OF Some] by simp
    then have "x \<noteq> y" using Cons.prems by auto
    then have "x \<in> set (remove1 y pool)" using Cons.prems by simp
    then show ?thesis using Some Cons by (simp split: prod.splits)
  qed
qed

lemma reconcile_left_or_taken:
  "x \<in> set pool \<Longrightarrow> x \<in> set (snd (reconcile pool vals)) \<or>
     (\<exists>v. (v, Some x) \<in> set (fst (reconcile pool vals)))"
proof (induction vals arbitrary: pool)
  case Nil
  then show ?case by simp
next
  case (Cons v vals)
  show ?case
  proof (cases "find (\<lambda>it. matches it v) pool")
    case None
    then show ?thesis using Cons by (auto split: prod.splits)
  next
    case (Some y)
    show ?thesis
    proof (cases "x = y")
      case True
      then show ?thesis using Some by (auto split: prod.splits)
    next
      case False
      then have "x \<in> set (remove1 y pool)" using Cons.prems by simp
      from Cons.IH [OF this] show ?thesis using Some by (auto split: prod.splits)
    qed
  qed
qed

lemma removeOrphans_eq:
  assumes "\<forall>i. \<not> removeFails e i"
  shows "removeOrphans e left w =
           Ok () (w\<lparr>store := filter (\<lambda>d. idOf d \<notin> idOf ` set left) (store w),
                    history := history w @ map (\<lambda>x. TxRemoveDoc (idOf x)) left\<rparr>)"
proof (induction left arbitrary: w)
  case Nil
  then show ?case by simp
next
  case (Cons x left)
  have h: "hasId (idOf x) d = (idOf d = idOf x)" for d
    by (auto simp: hasId_def idOf_def)
  show ?case
    using assms by (simp add: Cons removeNow_def idOf_def [symmetric] h)
qed

lemma removeOrphans_distinct:
  assumes "\<forall>i. \<not> removeFails e i" "distinct (map idOf (store w))" "set left \<subseteq> set (store w)"
  shows "removeOrphans e left w =
           Ok () (w\<lparr>store := filter (\<lambda>d. d \<notin> set left) (store w),
                    history := history w @ map (\<lambda>x. TxRemoveDoc (idOf x)) left\<rparr>)"
proof -
  have inj: "inj_on idOf (set (store w))" using assms(2) by (simp add: distinct_map)
  have "(idOf d \<notin> idOf ` set left) = (d \<notin> set left)" if "d \<in> set (store w)" for d
    using inj that assms(3) unfolding inj_on_def by blast
  then have "filter (\<lambda>d. idOf d \<notin> idOf ` set left) (store w) = filter (\<lambda>d. d \<notin> set left) (store w)"
    by (intro filter_cong) auto
  then show ?thesis using removeOrphans_eq [OF assms(1), of left w] by simp
qed


lemma findAllAttached_subset: "set (findAllAttached e st cl parent) \<subseteq> set st"
  by (auto simp: findAllAttached_def)

lemma findAllAttached_distinct:
  "distinct (map idOf st) \<Longrightarrow> distinct (findAllAttached e st cl parent)"
  by (simp add: findAllAttached_def distinct_map)

text \<open>
  Claim C3, as the code has it. The classes that are reconciled are the classes of the
  pending documents: a class is a group of \<^verbatim>\<open>byClass\<close> exactly when one pending document
  at least has it. For such a class of attached documents, when no call to the store
  rejects and the documents of the store have different identifiers, the merge does what
  the reconciliation of the specification does with the local documents that
  \<^verbatim>\<open>findAll\<close> gives for the class and the parent. Going through the pending documents in
  order, each takes the first local document that carries its remote id and that no
  earlier one has taken. That local document is diff-updated under its own identifier
  (the update never sets \<^verbatim>\<open>_id\<close>) and is not removed; a pending document that finds none
  is created fresh, and then no local document that is left carries its remote id. The
  local documents that no pending document has taken are removed from the store at once,
  and only they: among them is every local document whose remote id no pending document
  carries.
\<close>

theorem reconciliation_exhaustive:
  assumes "isAttachedDoc e cl" and "\<not> findAllFails e cl" and "\<forall>i. \<not> removeFails e i"
      and "distinct (map idOf (store w))"
  shows "((cl, vals) \<in> set (groupByClass pending []) \<longleftrightarrow>
            vals = filter (\<lambda>d. getField d ''_class'' = cl) pending \<and> vals \<noteq> []) \<and>
         (\<exists>pairs left.
            reconcile (findAllAttached e (store w) cl parent) vals = (pairs, left) \<and>
            syncClass e parent cl vals w =
              Ok () (w\<lparr>queue := queue w @ concat (map (recorded parent) pairs),
                       store := filter (\<lambda>d. d \<notin> set left) (store w),
                       history := history w @ map (\<lambda>x. TxRemoveDoc (idOf x)) left\<rparr>) \<and>
            map fst pairs = vals \<and>
            (\<forall>(v, m)\<in>set pairs.
               case m of
                 Some x \<Rightarrow>
                   x \<in> set (findAllAttached e (store w) cl parent) \<and> matches x v \<and> x \<notin> set left \<and>
                   ''_id'' \<notin> fst ` set (diffFields (getField x) (setField ''attachedTo'' parent v) [])
               | None \<Rightarrow> \<forall>x\<in>set left. \<not> matches x v) \<and>
            set left \<subseteq> set (findAllAttached e (store w) cl parent) \<and>
            (\<forall>x\<in>set (findAllAttached e (store w) cl parent).
               x \<in> set left \<or> (\<exists>v. (v, Some x) \<in> set pairs)) \<and>
            (\<forall>x\<in>set (findAllAttached e (store w) cl parent).
               (\<forall>v\<in>set vals. \<not> matches x v) \<longrightarrow> x \<in> set left))"
proof -
  define pool where "pool = findAllAttached e (store w) cl parent"
  define pairs where "pairs = fst (reconcile pool vals)"
  define left where "left = snd (reconcile pool vals)"
  have rc: "reconcile pool vals = (pairs, left)" by (simp add: pairs_def left_def)
  have dp: "distinct pool" unfolding pool_def using assms(4) by (rule findAllAttached_distinct)
  have sub: "set left \<subseteq> set pool" unfolding left_def by (rule reconcile_left_subset)
  have sub': "set left \<subseteq> set (store w)"
    using sub findAllAttached_subset [of e "store w" cl parent] unfolding pool_def by blast
  let ?w1 = "w\<lparr>queue := queue w @ concat (map (recorded parent) pairs)\<rparr>"
  have sp: "syncPending parent pool vals w = (left, ?w1)"
    by (simp add: syncPending_reconcile pairs_def left_def)
  have ro: "removeOrphans e left ?w1 =
           Ok () (?w1\<lparr>store := filter (\<lambda>d. d \<notin> set left) (store ?w1),
                    history := history ?w1 @ map (\<lambda>x. TxRemoveDoc (idOf x)) left\<rparr>)"
    using assms(3,4) sub' by (intro removeOrphans_distinct) simp_all
  have r: "syncClass e parent cl vals w =
              Ok () (w\<lparr>queue := queue w @ concat (map (recorded parent) pairs),
                       store := filter (\<lambda>d. d \<notin> set left) (store w),
                       history := history w @ map (\<lambda>x. TxRemoveDoc (idOf x)) left\<rparr>)"
    using assms(1,2) sp ro by (simp add: syncClass_def pool_def [symmetric])
  have f: "map fst pairs = vals" unfolding pairs_def by (rule reconcile_fst)
  have p: "case m of
                 Some x \<Rightarrow>
                   x \<in> set pool \<and> matches x v \<and> x \<notin> set left \<and>
                   ''_id'' \<notin> fst ` set (diffFields (getField x) (setField ''attachedTo'' parent v) [])
               | None \<Rightarrow> \<forall>x\<in>set left. \<not> matches x v" if "(v, m) \<in> set pairs" for v m
    using reconcile_pairs [OF dp that [unfolded pairs_def]] diffFields_no_id
    unfolding left_def [symmetric] by (auto split: option.splits)
  have t: "\<forall>x\<in>set pool. x \<in> set left \<or> (\<exists>v. (v, Some x) \<in> set pairs)"
    unfolding left_def pairs_def using reconcile_left_or_taken by blast
  have u: "\<forall>x\<in>set pool. (\<forall>v\<in>set vals. \<not> matches x v) \<longrightarrow> x \<in> set left"
    unfolding left_def using reconcile_unmatched_left by blast
  have "\<exists>pairs left.
            reconcile pool vals = (pairs, left) \<and>
            syncClass e parent cl vals w =
              Ok () (w\<lparr>queue := queue w @ concat (map (recorded parent) pairs),
                       store := filter (\<lambda>d. d \<notin> set left) (store w),
                       history := history w @ map (\<lambda>x. TxRemoveDoc (idOf x)) left\<rparr>) \<and>
            map fst pairs = vals \<and>
            (\<forall>(v, m)\<in>set pairs.
               case m of
                 Some x \<Rightarrow>
                   x \<in> set pool \<and> matches x v \<and> x \<notin> set left \<and>
                   ''_id'' \<notin> fst ` set (diffFields (getField x) (setField ''attachedTo'' parent v) [])
               | None \<Rightarrow> \<forall>x\<in>set left. \<not> matches x v) \<and>
            set left \<subseteq> set pool \<and>
            (\<forall>x\<in>set pool. x \<in> set left \<or> (\<exists>v. (v, Some x) \<in> set pairs)) \<and>
            (\<forall>x\<in>set pool. (\<forall>v\<in>set vals. \<not> matches x v) \<longrightarrow> x \<in> set left)"
    using rc r f p sub t u by (intro exI [of _ pairs] exI [of _ left]) blast
  then show ?thesis unfolding pool_def using groupByClass_iff [of cl vals pending] by blast
qed


text \<open>
  Claim C3, as the specification states it for every class, fails for a class with no
  pending document: the stored comment of the remote comment \<open>b\<close> stays when the new
  conversion result has no comment at all.
\<close>

theorem orphans_without_pending_counterexample:
  "exStored ''cb'' ''b'' \<in> set (findAllAttached exEnv (store (exWorld [exParent, exStored ''cb'' ''b''])) commentClass (JStr ''p'')) \<and>
   extraSync (exResult [] []) = [] \<and>
   exStored ''cb'' ''b'' \<in> set (store (snd (syncDocument exEnv (Some exParent) (exResult [] [])
      (exWorld [exParent, exStored ''cb'' ''b'']))))"
  by code_simp

theorem reconciliation_exhaustive_witness:
  "syncClass exEnv (JStr ''p'') commentClass
     [setField ''message'' (JStr ''edited'') (exPending ''n1'' ''a''), exPending ''n2'' ''c'']
     (exWorld [exParent, exStored ''ca'' ''a'', exStored ''cb'' ''b'', exStored ''cc'' ''c'']) =
   Ok () ((exWorld [exParent, exStored ''ca'' ''a'', exStored ''cc'' ''c''])
            \<lparr>queue := [TxUpdateDoc (JStr ''ca'') [(''message'', JStr ''edited'')]],
              history := [TxRemoveDoc (JStr ''cb'')]\<rparr>)"
proof -
  have h1: "isAttachedDoc exEnv commentClass" by code_simp
  have h2: "\<not> findAllFails exEnv commentClass" by code_simp
  have h3: "\<forall>i. \<not> removeFails exEnv i" by (simp add: exEnv_def)
  have h4: "distinct (map idOf (store (exWorld [exParent, exStored ''ca'' ''a'', exStored ''cb'' ''b'',
              exStored ''cc'' ''c''])))" by code_simp
  have rc: "reconcile (findAllAttached exEnv
       (store (exWorld [exParent, exStored ''ca'' ''a'', exStored ''cb'' ''b'', exStored ''cc'' ''c'']))
       commentClass (JStr ''p''))
     [setField ''message'' (JStr ''edited'') (exPending ''n1'' ''a''), exPending ''n2'' ''c''] =
     ([(setField ''message'' (JStr ''edited'') (exPending ''n1'' ''a''), Some (exStored ''ca'' ''a'')),
       (exPending ''n2'' ''c'', Some (exStored ''cc'' ''c''))], [exStored ''cb'' ''b''])" by code_simp
  have q: "concat (map (recorded (JStr ''p''))
     [(setField ''message'' (JStr ''edited'') (exPending ''n1'' ''a''), Some (exStored ''ca'' ''a'')),
       (exPending ''n2'' ''c'', Some (exStored ''cc'' ''c''))]) =
     [TxUpdateDoc (JStr ''ca'') [(''message'', JStr ''edited'')]]" by code_simp
  have s: "filter (\<lambda>d. d \<notin> set [exStored ''cb'' ''b''])
      (store (exWorld [exParent, exStored ''ca'' ''a'', exStored ''cb'' ''b'', exStored ''cc'' ''c''])) =
      [exParent, exStored ''ca'' ''a'', exStored ''cc'' ''c'']" by code_simp
  have i: "idOf (exStored ''cb'' ''b'') = JStr ''cb''" by code_simp
  define W where "W = exWorld [exParent, exStored ''ca'' ''a'', exStored ''cb'' ''b'', exStored ''cc'' ''c'']"
  define vals where "vals = [setField ''message'' (JStr ''edited'') (exPending ''n1'' ''a''), exPending ''n2'' ''c'']"
  from reconciliation_exhaustive [OF h1 h2 h3 h4, of vals "[]" "JStr ''p''"]
  obtain pairs left where
    a: "reconcile (findAllAttached exEnv (store W) commentClass (JStr ''p'')) vals = (pairs, left)" and
    b: "syncClass exEnv (JStr ''p'') commentClass vals W =
              Ok () (W\<lparr>queue := queue W @ concat (map (recorded (JStr ''p'')) pairs),
                       store := filter (\<lambda>d. d \<notin> set left) (store W),
                       history := history W @ map (\<lambda>x. TxRemoveDoc (idOf x)) left\<rparr>)"
    unfolding W_def [symmetric] by blast
  from a rc have pl: "pairs = [(setField ''message'' (JStr ''edited'') (exPending ''n1'' ''a''), Some (exStored ''ca'' ''a'')),
       (exPending ''n2'' ''c'', Some (exStored ''cc'' ''c''))]" "left = [exStored ''cb'' ''b'']"
    unfolding W_def vals_def by simp_all
  have r: "W\<lparr>queue := queue W @ concat (map (recorded (JStr ''p'')) pairs),
                       store := filter (\<lambda>d. d \<notin> set left) (store W),
                       history := history W @ map (\<lambda>x. TxRemoveDoc (idOf x)) left\<rparr> =
           (exWorld [exParent, exStored ''ca'' ''a'', exStored ''cc'' ''c''])
            \<lparr>queue := [TxUpdateDoc (JStr ''ca'') [(''message'', JStr ''edited'')]],
              history := [TxRemoveDoc (JStr ''cb'')]\<rparr>"
    unfolding pl q s [folded W_def] by (simp add: i W_def exWorld_def)
  have "syncClass exEnv (JStr ''p'') commentClass vals W =
           Ok () ((exWorld [exParent, exStored ''ca'' ''a'', exStored ''cc'' ''c''])
            \<lparr>queue := [TxUpdateDoc (JStr ''ca'') [(''message'', JStr ''edited'')]],
              history := [TxRemoveDoc (JStr ''cb'')]\<rparr>)"
    using b unfolding r .
  then show ?thesis unfolding W_def vals_def .
qed


section \<open>Properties of the reconciliation of attachments\<close>

lemma dedupExisting_nomatch:
  "\<forall>x\<in>set pool. \<not> sameBlob x e \<Longrightarrow> dedupExisting pool e u w = ((pool, u), w)"
  by (induction pool) auto

lemma dedupExisting_uploads:
  "uploads (snd (dedupExisting pool e u w)) = uploads w"
proof (induction pool arbitrary: u w)
  case Nil
  then show ?case by simp
next
  case (Cons x pool)
  show ?case
  proof (cases "sameBlob x e")
    case False
    then show ?thesis using Cons [of u w] by (auto split: prod.splits)
  next
    case True
    show ?thesis
    proof (cases u)
      case True
      then show ?thesis
        using \<open>sameBlob x e\<close> Cons [of True "enqueue (TxRemoveDoc (getField x ''_id'')) w"]
        by (auto split: prod.splits)
    next
      case False
      obtain ex' w1 where u1: "updateAttachedDoc (Some x) e w = (ex', w1)"
        by (cases "updateAttachedDoc (Some x) e w")
      have "uploads w1 = uploads w"
        using u1 by (auto simp: updateAttachedDoc_def updateDoc_def updateMixin_def Let_def
            split: prod.splits if_splits)
      then show ?thesis
        using \<open>sameBlob x e\<close> False u1 Cons [of True w1] by (auto split: prod.splits)
    qed
  qed
qed

lemma dedupExisting_updated:
  "snd (fst (dedupExisting pool e u w)) = (u \<or> (\<exists>x\<in>set pool. sameBlob x e))"
proof (induction pool arbitrary: u w)
  case Nil
  then show ?case by simp
next
  case (Cons x pool)
  show ?case
  proof (cases "sameBlob x e")
    case False
    then show ?thesis using Cons [of u w] by (auto split: prod.splits)
  next
    case True
    show ?thesis
    proof (cases u)
      case True
      then show ?thesis
        using \<open>sameBlob x e\<close> Cons [of True "enqueue (TxRemoveDoc (getField x ''_id'')) w"]
        by (auto split: prod.splits)
    next
      case False
      obtain ex' w1 where u1: "updateAttachedDoc (Some x) e w = (ex', w1)"
        by (cases "updateAttachedDoc (Some x) e w")
      show ?thesis
        using \<open>sameBlob x e\<close> False u1 Cons [of True w1] by (auto split: prod.splits)
    qed
  qed
qed

lemma find_None: "\<forall>x\<in>set xs. \<not> p x \<Longrightarrow> find p xs = None"
  by (simp add: find_None_iff)

lemma syncBlob_upload:
  assumes "\<forall>x\<in>set pool. \<not> matches x (ed b)"
      and "\<forall>x\<in>set pool. \<not> sameBlob x (finalizeBlob b f)"
      and "op b = Inr (Some f)" and "uploadBlob e f = Inr (200, u)"
  shows "syncBlob e pool b w =
     (pool, snd (updateAttachedDoc None
        (setField ''_id'' (generateId e (nextId w)) (setField ''file'' (JStr u) (finalizeBlob b f)))
        (w\<lparr>nextId := Suc (nextId w), uploads := uploads w @ [f]\<rparr>)))"
  using assms(3,4) find_None [OF assms(1)]
    dedupExisting_nomatch [OF assms(2), of False "w\<lparr>nextId := Suc (nextId w)\<rparr>"]
  by (simp add: syncBlob_def Let_def)

text \<open>
  Claim C6, as the code has it. Pending attachments are compared with the attachments
  that exist before the merge, never with each other. Given two pending descriptors
  (with the same name, size and type or not) and no existing attachment that matches
  either by remote id or by name, size and type, when both loaders return a file and both
  uploads answer 200: both files are uploaded and two attachment records are created,
  each with its sync trait. An upload is spared only when an attachment that exists
  already has the name, size and type of the pending one.
\<close>

theorem pending_attachments_not_deduplicated:
  assumes "\<forall>x\<in>set existingBlobs. \<not> matches x (ed b1) \<and> \<not> matches x (ed b2)"
      and "\<forall>x\<in>set existingBlobs.
             \<not> sameBlob x (finalizeBlob b1 f1) \<and> \<not> sameBlob x (finalizeBlob b2 f2)"
      and "op b1 = Inr (Some f1)" and "op b2 = Inr (Some f2)"
      and "uploadBlob e f1 = Inr (200, u1)" and "uploadBlob e f2 = Inr (200, u2)"
  shows "(\<exists>w'. syncBlobs e existingBlobs [b1, b2] w = (existingBlobs, w') \<and>
            uploads w' = uploads w @ [f1, f2] \<and>
            queue w' = queue w @
              [addCollectionOf (setField ''_id'' (generateId e (nextId w))
                  (setField ''file'' (JStr u1) (finalizeBlob b1 f1))),
               TxCreateMixin (generateId e (nextId w)) syncMixin (syncDataOf (setField ''_id'' (generateId e (nextId w))
                  (setField ''file'' (JStr u1) (finalizeBlob b1 f1)))),
               addCollectionOf (setField ''_id'' (generateId e (Suc (nextId w)))
                  (setField ''file'' (JStr u2) (finalizeBlob b2 f2))),
               TxCreateMixin (generateId e (Suc (nextId w))) syncMixin (syncDataOf (setField ''_id'' (generateId e (Suc (nextId w)))
                  (setField ''file'' (JStr u2) (finalizeBlob b2 f2))))]) \<and>
         (\<forall>pool b f. op b = Inr (Some f) \<and> (\<exists>x\<in>set pool. sameBlob x (finalizeBlob b f)) \<longrightarrow>
            uploads (snd (syncBlob e pool b w)) = uploads w)"
proof -
  let ?a1 = "setField ''_id'' (generateId e (nextId w)) (setField ''file'' (JStr u1) (finalizeBlob b1 f1))"
  let ?w0 = "w\<lparr>nextId := Suc (nextId w), uploads := uploads w @ [f1]\<rparr>"
  let ?w1 = "snd (updateAttachedDoc None ?a1 ?w0)"
  have 1: "syncBlob e existingBlobs b1 w = (existingBlobs, ?w1)"
    using assms by (intro syncBlob_upload) auto
  have n1: "nextId ?w1 = Suc (nextId w)" "uploads ?w1 = uploads w @ [f1]"
    "queue ?w1 = queue w @ [addCollectionOf ?a1, TxCreateMixin (generateId e (nextId w)) syncMixin (syncDataOf ?a1)]"
    by (simp_all add: updateAttachedDoc_def getField_setField)
  let ?a2 = "setField ''_id'' (generateId e (Suc (nextId w))) (setField ''file'' (JStr u2) (finalizeBlob b2 f2))"
  let ?w2 = "snd (updateAttachedDoc None ?a2 (?w1\<lparr>nextId := Suc (nextId ?w1), uploads := uploads ?w1 @ [f2]\<rparr>))"
  have 2: "syncBlob e existingBlobs b2 ?w1 = (existingBlobs, ?w2)"
    using assms n1(1) syncBlob_upload [of existingBlobs b2 f2 e u2 ?w1] by auto
  have n2: "uploads ?w2 = uploads w @ [f1, f2]"
    "queue ?w2 = queue w @ [addCollectionOf ?a1, TxCreateMixin (generateId e (nextId w)) syncMixin (syncDataOf ?a1),
        addCollectionOf ?a2, TxCreateMixin (generateId e (Suc (nextId w))) syncMixin (syncDataOf ?a2)]"
    using n1 by (simp_all add: updateAttachedDoc_def getField_setField)
  have A: "\<exists>w'. syncBlobs e existingBlobs [b1, b2] w = (existingBlobs, w') \<and>
            uploads w' = uploads w @ [f1, f2] \<and>
            queue w' = queue w @ [addCollectionOf ?a1, TxCreateMixin (generateId e (nextId w)) syncMixin (syncDataOf ?a1),
        addCollectionOf ?a2, TxCreateMixin (generateId e (Suc (nextId w))) syncMixin (syncDataOf ?a2)]"
    using 1 2 n2 by (intro exI [of _ ?w2]) simp
  have B: "uploads (snd (syncBlob e pool b w)) = uploads w"
    if "op b = Inr (Some f)" "\<exists>x\<in>set pool. sameBlob x (finalizeBlob b f)" for pool b f
  proof (cases "find (\<lambda>it. matches it (ed b)) pool")
    case (Some x)
    then show ?thesis by (simp add: syncBlob_def)
  next
    case None
    obtain p' u' w' where d: "dedupExisting pool (finalizeBlob b f) False (w\<lparr>nextId := Suc (nextId w)\<rparr>) = ((p', u'), w')"
      by (metis prod.exhaust)
    have "u'" using dedupExisting_updated [of pool "finalizeBlob b f" False "w\<lparr>nextId := Suc (nextId w)\<rparr>"] d that(2) by simp
    moreover have "uploads w' = uploads w"
      using dedupExisting_uploads [of pool "finalizeBlob b f" False "w\<lparr>nextId := Suc (nextId w)\<rparr>"] d by simp
    ultimately show ?thesis using None that(1) d by (simp add: syncBlob_def Let_def)
  qed
  from A B show ?thesis by blast
qed

text \<open>
  Claim C6, as the specification states it, fails: two pending descriptors with the same
  name, size and type and no existing attachment give two uploads, and the person has two
  attachment records after the merge.
\<close>

theorem duplicate_pending_attachments_counterexample:
  "findAllAttached exEnv (store (exWorld [exParent])) attachmentClass (JStr ''p'') = [] \<and>
   sameBlob (finalizeBlob (exBlob ''x1'' ''f1'' ''a.txt'') (exFile ''a.txt''))
            (finalizeBlob (exBlob ''x2'' ''f2'' ''a.txt'') (exFile ''a.txt'')) \<and>
   uploads (snd (syncDocument exEnv (Some exParent)
      (exResult [] [exBlob ''x1'' ''f1'' ''a.txt'', exBlob ''x2'' ''f2'' ''a.txt'']) (exWorld [exParent]))) =
     [exFile ''a.txt'', exFile ''a.txt''] \<and>
   map (\<lambda>d. getField d ''_id'') (findAllAttached exEnv (store (snd (syncDocument exEnv (Some exParent)
      (exResult [] [exBlob ''x1'' ''f1'' ''a.txt'', exBlob ''x2'' ''f2'' ''a.txt'']) (exWorld [exParent]))))
      attachmentClass (JStr ''p'')) = [JStr ''gen'', JStr ''gen+'']"
  by code_simp

theorem pending_attachments_not_deduplicated_witness:
  "uploads (snd (syncBlobs exEnv [] [exBlob ''x1'' ''f1'' ''a.txt'', exBlob ''x2'' ''f2'' ''a.txt'']
      (exWorld [exParent]))) = [exFile ''a.txt'', exFile ''a.txt'']"
proof -
  have h1: "\<forall>x\<in>set []. \<not> matches x (ed (exBlob ''x1'' ''f1'' ''a.txt'')) \<and>
               \<not> matches x (ed (exBlob ''x2'' ''f2'' ''a.txt''))" by simp
  have h2: "\<forall>x\<in>set []. \<not> sameBlob x (finalizeBlob (exBlob ''x1'' ''f1'' ''a.txt'') (exFile ''a.txt'')) \<and>
               \<not> sameBlob x (finalizeBlob (exBlob ''x2'' ''f2'' ''a.txt'') (exFile ''a.txt''))" by simp
  have h3: "op (exBlob ''x1'' ''f1'' ''a.txt'') = Inr (Some (exFile ''a.txt''))" by (simp add: exBlob_def)
  have h4: "op (exBlob ''x2'' ''f2'' ''a.txt'') = Inr (Some (exFile ''a.txt''))" by (simp add: exBlob_def)
  have h5: "uploadBlob exEnv (exFile ''a.txt'') = Inr (200, ''blob-a.txt'')" by (simp add: exEnv_def exFile_def)
  from pending_attachments_not_deduplicated [OF h1 h2 h3 h4 h5 h5, of "exWorld [exParent]"]
  show ?thesis by (auto simp: exWorld_def)
qed

section \<open>The transaction of \<^verbatim>\<open>syncDocument\<close>\<close>

text \<open>
  Claim C2 at a failing input. The person has the stored comments of the remote comments
  \<open>a\<close> and \<open>b\<close>; the conversion brings \<open>a\<close> with an edited message and a new comment
  \<open>d\<close>; \<^verbatim>\<open>commit\<close> rejects. The edit and the creation are dropped with the transaction,
  but the comment of \<open>b\<close> is gone: line 160 removes it through \<^verbatim>\<open>client.remove\<close>, outside
  the transaction.
\<close>

theorem orphan_removal_outside_transaction:
  "syncDocument (exEnv\<lparr>commitFails := True\<rparr>) (Some exParent)
      (exResult [setField ''message'' (JStr ''edited'') (exPending ''n1'' ''a''), exPending ''n2'' ''d''] [])
      (exWorld [exParent, exStored ''ca'' ''a'', exStored ''cb'' ''b'']) =
   ((exParent, setField ''_id'' (JStr ''p'') (document (exResult [] []))),
    (exWorld [exParent, exStored ''ca'' ''a''])
       \<lparr>history := [TxRemoveDoc (JStr ''cb'')], errlog := [CommitFailed]\<rparr>)"
  by code_simp

section \<open>Properties of the orchestration loop\<close>

subsection \<open>Skipped records\<close>

lemma skipped_cong:
  "existingDocuments st' = existingDocuments st \<Longrightarrow> skipped ops t st' r = skipped ops t st r"
  by (auto simp: skipped_def existingDocOf_def split: option.splits)

lemma processRecord_skipped:
  assumes "skipped ops syncTime st r"
  shows "processRecord run e ops totalCount syncTime r st =
           Some (limit ops \<le> added st + 1,
                 st\<lparr>trace := trace st @ [ELoad (synchronized st) (added st), monitor ops totalCount],
                    added := added st + 1,
                    synchronized := synchronized st + 1\<rparr>)"
  using assms
  by (auto simp: processRecord_def skipped_def existingDocOf_def Let_def emit_def
      split: option.splits)

lemma recordLoop_skipped:
  assumes "\<forall>r\<in>set rs. skipped ops syncTime st r"
  shows "\<exists>st'. recordLoop run e ops totalCount syncTime rs st = Some st' \<and>
           world st' = world st \<and> resultDocs st' = resultDocs st \<and>
           existingDocuments st' = existingDocuments st \<and>
           (\<exists>d. trace st' = trace st @ d \<and>
                (\<forall>ev\<in>set d. (\<exists>a b. ev = ELoad a b) \<or> ev = monitor ops totalCount)) \<and>
           (added st' = added st + int (length rs) \<or> limit ops \<le> added st')"
  using assms
proof (induction rs arbitrary: st)
  case Nil
  then show ?case by simp
next
  case (Cons r rs)
  let ?st1 = "st\<lparr>trace := trace st @ [ELoad (synchronized st) (added st), monitor ops totalCount],
                    added := added st + 1,
                    synchronized := synchronized st + 1\<rparr>"
  have r: "skipped ops syncTime st r" using Cons.prems by simp
  have step: "processRecord run e ops totalCount syncTime r st = Some (limit ops \<le> added st + 1, ?st1)"
    by (rule processRecord_skipped [OF r])
  show ?case
  proof (cases "limit ops \<le> added st + 1")
    case True
    have "recordLoop run e ops totalCount syncTime (r # rs) st = Some ?st1"
      using step True by simp
    moreover have "\<exists>d. trace ?st1 = trace st @ d \<and>
                (\<forall>ev\<in>set d. (\<exists>a b. ev = ELoad a b) \<or> ev = monitor ops totalCount)"
      by (intro exI [of _ "[ELoad (synchronized st) (added st), monitor ops totalCount]"]) simp
    ultimately show ?thesis using True by simp
  next
    case False
    have "\<forall>r\<in>set rs. skipped ops syncTime ?st1 r"
      using Cons.prems skipped_cong [of ?st1 st] by simp
    from Cons.IH [OF this] obtain st' d where
      st': "recordLoop run e ops totalCount syncTime rs ?st1 = Some st'"
        "world st' = world ?st1" "resultDocs st' = resultDocs ?st1"
        "existingDocuments st' = existingDocuments ?st1"
        "trace st' = trace ?st1 @ d"
        "\<forall>ev\<in>set d. (\<exists>a b. ev = ELoad a b) \<or> ev = monitor ops totalCount"
        "added st' = added ?st1 + int (length rs) \<or> limit ops \<le> added st'"
      by blast
    have "recordLoop run e ops totalCount syncTime (r # rs) st = Some st'"
      using step False st'(1) by simp
    moreover have "\<exists>d'. trace st' = trace st @ d' \<and>
                (\<forall>ev\<in>set d'. (\<exists>a b. ev = ELoad a b) \<or> ev = monitor ops totalCount)"
      using st'(5,6)
      by (intro exI [of _ "[ELoad (synchronized st) (added st), monitor ops totalCount] @ d"]) auto
    ultimately show ?thesis using st'(2,3,4,7) by auto
  qed
qed

text \<open>
  Claim C5. A record is skipped when its local document, found among the documents
  fetched with the page, has a sync time that with the period (24 hours unless the
  options say otherwise) is still after the time of the page fetch. The turn of the
  loop for such a record converts nothing, merges nothing and leaves the world as it is;
  it counts the record as accepted, reports the progress through the monitor, and leaves
  the loop when the limit is reached. So a page of records that are all skipped leaves
  the store and the result untouched: the trace grows by load and monitor events only,
  and every record is counted unless the limit ends the loop before.
\<close>

theorem suppressed_record_skipped:
  "(skipped ops syncTime st r \<longrightarrow>
      processRecord run e ops totalCount syncTime r st =
        Some (limit ops \<le> added st + 1,
              st\<lparr>trace := trace st @ [ELoad (synchronized st) (added st), monitor ops totalCount],
                 added := added st + 1,
                 synchronized := synchronized st + 1\<rparr>)) \<and>
   ((\<forall>r\<in>set rs. skipped ops syncTime st r) \<longrightarrow>
      (\<exists>st'. recordLoop run e ops totalCount syncTime rs st = Some st' \<and>
           world st' = world st \<and> resultDocs st' = resultDocs st \<and>
           (\<exists>d. trace st' = trace st @ d \<and>
                (\<forall>ev\<in>set d. (\<exists>a b. ev = ELoad a b) \<or> ev = monitor ops totalCount)) \<and>
           (added st' = added st + int (length rs) \<or> limit ops \<le> added st')))"
  using processRecord_skipped [of ops syncTime st r run e totalCount]
    recordLoop_skipped [of rs ops syncTime st run e totalCount]
  by blast

theorem suppressed_record_skipped_witness:
  "processRecord (\<lambda>e ops st. None) exLenv exOptions (JNum 1) 1001 exRecord
      (exState [exParent] [exParent]) =
   Some (False, (exState [exParent] [exParent])
                   \<lparr>trace := [ELoad 0 0, EMonitor (JNum 1)], added := 1, synchronized := 1\<rparr>) \<and>
   (\<exists>st'. recordLoop (\<lambda>e ops st. None) exLenv exOptions (JNum 1) 1001 [exRecord, exRecord]
            (exState [exParent] [exParent]) = Some st' \<and>
          world st' = world (exState [exParent] [exParent]) \<and>
          resultDocs st' = resultDocs (exState [exParent] [exParent]))"
proof -
  have h: "skipped exOptions 1001 (exState [exParent] [exParent]) exRecord" by code_simp
  have l: "limit exOptions = 5" "added (exState [exParent] [exParent]) = 0"
    "synchronized (exState [exParent] [exParent]) = 0" "trace (exState [exParent] [exParent]) = []"
    "monitor exOptions = EMonitor"
    by (simp_all add: exOptions_def exState_def)
  have t: "(skipped exOptions 1001 (exState [exParent] [exParent]) exRecord \<longrightarrow> A) \<and>
           ((\<forall>r\<in>set [exRecord, exRecord].
                skipped exOptions 1001 (exState [exParent] [exParent]) r) \<longrightarrow> B) \<Longrightarrow> A \<and> B"
    for A B
    using h by simp
  show ?thesis
    using t [OF suppressed_record_skipped [of exOptions 1001 "exState [exParent] [exParent]" exRecord
        "\<lambda>e ops st. None" exLenv "JNum 1" "[exRecord, exRecord]"]] l
    by auto
qed

lemma processRecord_converted:
  assumes "\<not> skipped ops syncTime st r"
      and "conversion e ops r (existingDocOf st r) (allTagElements st) = Inr res"
  shows "processRecord run e ops totalCount syncTime r st =
          (case mergeRecord e ops totalCount r (findExisting (existingDocuments st) r)
                  (existingDocOf st r) res (afterConversion ops r st) of
             (res', st4) \<Rightarrow>
               (case contactsOfCompany run e ops res' st4 of
                  None \<Rightarrow> None
                | Some (Inl f', st5) \<Rightarrow>
                    Some (False, st5\<lparr>trace := trace st5 @ [ELogFailure r f', ESleep 1000]\<rparr>)
                | Some (Inr u, st5) \<Rightarrow> Some (limit ops \<le> added st5, st5)))"
proof -
  define st0 where "st0 = (emit (ELoad (synchronized st) (added st)) st)\<lparr>synchronized := synchronized st + 1\<rparr>"
  define idx where "idx = findExisting (existingDocuments st) r"
  have s0: "existingDocuments st0 = existingDocuments st" "allTagElements st0 = allTagElements st"
    by (simp_all add: st0_def emit_def)
  have cond: "\<not> (case idx of None \<Rightarrow> False | Some i \<Rightarrow> suppressed ops syncTime (existingDocuments st ! i))"
    using assms(1) by (auto simp: skipped_def existingDocOf_def idx_def split: option.splits)
  have ex: "(case idx of None \<Rightarrow> None | Some i \<Rightarrow> Some (existingDocuments st ! i)) = existingDocOf st r"
    by (simp add: existingDocOf_def idx_def)
  have pr: "processRecord run e ops totalCount syncTime r st =
        (case recordBody run e ops totalCount r idx st0 of
                None \<Rightarrow> None
              | Some (Inl f, st1) \<Rightarrow> Some (False, emit (ESleep 1000) (emit (ELogFailure r f) st1))
              | Some (Inr brk, st1) \<Rightarrow> Some (brk, st1))"
    using cond unfolding processRecord_def Let_def st0_def [symmetric] s0 idx_def [symmetric] by simp
  obtain res0 where c0: "convert e ops r (existingDocOf st r) (allTagElements st) = Inr res0"
    using assms(2) by (cases "convert e ops r (existingDocOf st r) (allTagElements st)")
      (simp_all add: conversion_def)
  define st2 where "st2 = afterConversion ops r st"
  have st2: "st2 = (if mcomments (mapping ops) then emit EComments (emit (EConvert r) st0)
                    else emit (EConvert r) st0)"
    by (simp add: st2_def afterConversion_def st0_def emit_def commentsEvent_def)
  have dl: "(if mcomments (mapping ops)
                  then (case downloadComments e ops res0 of
                          Inl f \<Rightarrow> (Inl f, emit EComments (emit (EConvert r) st0))
                        | Inr res1 \<Rightarrow> (Inr res1, emit EComments (emit (EConvert r) st0)))
                  else (Inr res0, emit (EConvert r) st0)) = (Inr res, st2)"
    using assms(2) c0 st2 by (auto simp: conversion_def split: sum.splits)
  obtain res' st4 where m: "mergeRecord e ops totalCount r idx (existingDocOf st r) res st2 = (res', st4)"
    by (metis prod.exhaust)
  have rb: "recordBody run e ops totalCount r idx st0 =
          (case contactsOfCompany run e ops res' st4 of
                      None \<Rightarrow> None
                    | Some (Inl f, st5) \<Rightarrow> Some (Inl f, st5)
                    | Some (Inr _, st5) \<Rightarrow> Some (Inr (limit ops \<le> added st5), st5))"
    unfolding recordBody_def Let_def s0 ex c0 sum.case dl prod.case m ..
  show ?thesis
    unfolding pr rb idx_def [symmetric] st2_def [symmetric] m prod.case
    by (simp add: emit_def split: option.splits sum.splits prod.splits)
qed

lemma mergeRecord_props:
  assumes "mergeRecord e ops totalCount r idx ex res st2 = (res', st4)"
  shows "added st4 = added st2 + 1"
    and "trace st4 = trace st2 @ [EMerge r, monitor ops totalCount]"
    and "resultDocs st4 = resultDocs st2 @ [document res']"
    and "world st4 = snd (syncDocument (menv e) ex res (world st2))"
  using assms
  by (auto simp: mergeRecord_def Let_def emit_def split: prod.splits)

lemma contactsOfCompany_keeps:
  assumes "contactsOfCompany run e ops res st = Some (out, st5)"
  shows "added st5 = added st \<and> resultDocs st5 = resultDocs st"
  using assms
  by (auto simp: contactsOfCompany_def performOrganizationContactSynchronization_def Let_def
      split: if_splits option.splits prod.splits result.splits)

lemma contactsOfCompany_none:
  assumes "mtype (mapping ops) \<noteq> companyType \<or>
           find (\<lambda>it. mtype it = contactType) (allMappings ops) = None"
  shows "contactsOfCompany run e ops res st = Some (Inr (), st)"
  using assms by (auto simp: contactsOfCompany_def)

lemma contactsOfCompany_returns:
  assumes "\<forall>e' ops' st'. run e' ops' st' \<noteq> None"
  shows "contactsOfCompany run e ops res st \<noteq> None"
proof -
  have "performOrganizationContactSynchronization run e ops' res st \<noteq> None" for ops'
  proof -
    obtain contacts st1 where
      "run e (ops'\<lparr>extraFilter := Some [(''COMPANY_ID'', getField (document res) ''bitrixId'')],
                      monitor := ELogTotal\<rparr>) st = Some (contacts, st1)"
      using assms by (metis option.exhaust prod.exhaust)
    then show ?thesis
      by (auto simp: performOrganizationContactSynchronization_def Let_def split: result.splits)
  qed
  then show ?thesis by (auto simp: contactsOfCompany_def split: option.splits)
qed

lemma processRecord_returns:
  assumes "\<forall>e' ops' st'. run e' ops' st' \<noteq> None"
  shows "processRecord run e ops totalCount syncTime r st \<noteq> None"
proof -
  note cc = contactsOfCompany_returns [OF assms]
  have rb: "recordBody run e ops totalCount r idx st0 \<noteq> None" for idx st0
    by (auto simp: recordBody_def Let_def cc split: sum.splits prod.splits option.splits)
  show ?thesis
    by (auto simp: processRecord_def Let_def rb split: option.splits sum.splits prod.splits)
qed

text \<open>
  Claim C7, as the code has it, for a record that is not skipped. When \<^verbatim>\<open>convert\<close> or the
  download of comments raises, the turn logs the failure, sleeps 1000 ms, does not count
  the record and goes on with the next one. A failure inside the merge never reaches the
  loop: \<^verbatim>\<open>syncDocument\<close> catches and logs it itself. Whatever the merge did, the record
  is counted (the count is raised before the merge is called), its document is added to
  the result and the monitor is called. What follows the merge is the synchronisation of
  the contacts of an organisation, which only runs for a mapping of companies with a
  mapping of contacts defined. When it raises, the failure is logged and the turn sleeps
  1000 ms, but the record stays counted and its document stays in the result; when it
  returns, or does not run, there is no sleep and the loop is left if the limit is reached.
  No turn ends the loop by an exception: a turn returns whenever the nested runs return.
\<close>

theorem record_failure_handling:
  assumes "\<not> skipped ops syncTime st r"
  shows "(convert e ops r (existingDocOf st r) (allTagElements st) = Inl f \<longrightarrow>
            processRecord run e ops totalCount syncTime r st =
              Some (False, st\<lparr>trace := trace st @ [ELoad (synchronized st) (added st), EConvert r,
                                                    ELogFailure r f, ESleep 1000],
                              synchronized := synchronized st + 1\<rparr>)) \<and>
         (convert e ops r (existingDocOf st r) (allTagElements st) = Inr res0 \<and>
          mcomments (mapping ops) \<and> downloadComments e ops res0 = Inl f \<longrightarrow>
            processRecord run e ops totalCount syncTime r st =
              Some (False, st\<lparr>trace := trace st @ [ELoad (synchronized st) (added st), EConvert r,
                                                    EComments, ELogFailure r f, ESleep 1000],
                              synchronized := synchronized st + 1\<rparr>)) \<and>
         (conversion e ops r (existingDocOf st r) (allTagElements st) = Inr res \<longrightarrow>
            (\<exists>res' st4.
               mergeRecord e ops totalCount r (findExisting (existingDocuments st) r)
                 (existingDocOf st r) res (afterConversion ops r st) = (res', st4) \<and>
               added st4 = added st + 1 \<and>
               trace st4 = trace (afterConversion ops r st) @ [EMerge r, monitor ops totalCount] \<and>
               resultDocs st4 = resultDocs st @ [document res'] \<and>
               world st4 = snd (syncDocument (menv e) (existingDocOf st r) res (world st)) \<and>
               processRecord run e ops totalCount syncTime r st =
                 (case contactsOfCompany run e ops res' st4 of
                    None \<Rightarrow> None
                  | Some (Inl f', st5) \<Rightarrow>
                      Some (False, st5\<lparr>trace := trace st5 @ [ELogFailure r f', ESleep 1000]\<rparr>)
                  | Some (Inr u, st5) \<Rightarrow> Some (limit ops \<le> added st5, st5)) \<and>
               (mtype (mapping ops) \<noteq> companyType \<or>
                find (\<lambda>it. mtype it = contactType) (allMappings ops) = None \<longrightarrow>
                  contactsOfCompany run e ops res' st4 = Some (Inr (), st4)) \<and>
               (\<forall>out st5. contactsOfCompany run e ops res' st4 = Some (out, st5) \<longrightarrow>
                  added st5 = added st + 1 \<and> resultDocs st5 = resultDocs st @ [document res']))) \<and>
         ((\<forall>e' ops' st'. run e' ops' st' \<noteq> None) \<longrightarrow>
            processRecord run e ops totalCount syncTime r st \<noteq> None)"
proof (intro conjI impI)
  assume "convert e ops r (existingDocOf st r) (allTagElements st) = Inl f"
  then show "processRecord run e ops totalCount syncTime r st =
              Some (False, st\<lparr>trace := trace st @ [ELoad (synchronized st) (added st), EConvert r,
                                                    ELogFailure r f, ESleep 1000],
                              synchronized := synchronized st + 1\<rparr>)"
    using assms
    by (auto simp: processRecord_def recordBody_def skipped_def existingDocOf_def Let_def emit_def
        split: option.splits)
next
  assume "convert e ops r (existingDocOf st r) (allTagElements st) = Inr res0 \<and>
          mcomments (mapping ops) \<and> downloadComments e ops res0 = Inl f"
  then show "processRecord run e ops totalCount syncTime r st =
              Some (False, st\<lparr>trace := trace st @ [ELoad (synchronized st) (added st), EConvert r,
                                                    EComments, ELogFailure r f, ESleep 1000],
                              synchronized := synchronized st + 1\<rparr>)"
    using assms
    by (auto simp: processRecord_def recordBody_def skipped_def existingDocOf_def Let_def emit_def
        split: option.splits)
next
  assume c: "conversion e ops r (existingDocOf st r) (allTagElements st) = Inr res"
  obtain res' st4 where m: "mergeRecord e ops totalCount r (findExisting (existingDocuments st) r)
                 (existingDocOf st r) res (afterConversion ops r st) = (res', st4)"
    by (metis prod.exhaust)
  note p = mergeRecord_props [OF m]
  have a: "added (afterConversion ops r st) = added st"
    "resultDocs (afterConversion ops r st) = resultDocs st"
    "world (afterConversion ops r st) = world st"
    by (simp_all add: afterConversion_def)
  have 1: "processRecord run e ops totalCount syncTime r st =
                 (case contactsOfCompany run e ops res' st4 of
                    None \<Rightarrow> None
                  | Some (Inl f', st5) \<Rightarrow>
                      Some (False, st5\<lparr>trace := trace st5 @ [ELogFailure r f', ESleep 1000]\<rparr>)
                  | Some (Inr u, st5) \<Rightarrow> Some (limit ops \<le> added st5, st5))"
    using processRecord_converted [OF assms c, of run totalCount] m by simp
  have 2: "mtype (mapping ops) \<noteq> companyType \<or>
                find (\<lambda>it. mtype it = contactType) (allMappings ops) = None \<longrightarrow>
                  contactsOfCompany run e ops res' st4 = Some (Inr (), st4)"
    using contactsOfCompany_none [of ops run e res' st4] by blast
  have 3: "\<forall>out st5. contactsOfCompany run e ops res' st4 = Some (out, st5) \<longrightarrow>
                  added st5 = added st + 1 \<and> resultDocs st5 = resultDocs st @ [document res']"
    using contactsOfCompany_keeps [of run e ops res' st4] p(1,3) a by auto
  show "\<exists>res' st4.
               mergeRecord e ops totalCount r (findExisting (existingDocuments st) r)
                 (existingDocOf st r) res (afterConversion ops r st) = (res', st4) \<and>
               added st4 = added st + 1 \<and>
               trace st4 = trace (afterConversion ops r st) @ [EMerge r, monitor ops totalCount] \<and>
               resultDocs st4 = resultDocs st @ [document res'] \<and>
               world st4 = snd (syncDocument (menv e) (existingDocOf st r) res (world st)) \<and>
               processRecord run e ops totalCount syncTime r st =
                 (case contactsOfCompany run e ops res' st4 of
                    None \<Rightarrow> None
                  | Some (Inl f', st5) \<Rightarrow>
                      Some (False, st5\<lparr>trace := trace st5 @ [ELogFailure r f', ESleep 1000]\<rparr>)
                  | Some (Inr u, st5) \<Rightarrow> Some (limit ops \<le> added st5, st5)) \<and>
               (mtype (mapping ops) \<noteq> companyType \<or>
                find (\<lambda>it. mtype it = contactType) (allMappings ops) = None \<longrightarrow>
                  contactsOfCompany run e ops res' st4 = Some (Inr (), st4)) \<and>
               (\<forall>out st5. contactsOfCompany run e ops res' st4 = Some (out, st5) \<longrightarrow>
                  added st5 = added st + 1 \<and> resultDocs st5 = resultDocs st @ [document res'])"
    using m p a 1 2 3 by (intro exI [of _ res'] exI [of _ st4]) simp
next
  assume "\<forall>e' ops' st'. run e' ops' st' \<noteq> None"
  then show "processRecord run e ops totalCount syncTime r st \<noteq> None"
    by (rule processRecord_returns)
qed


theorem record_failure_handling_witness:
  "processRecord (\<lambda>e ops st. None) (exLenv\<lparr>convert := (\<lambda>ops r existingDoc tags. Inl ConvertFailed)\<rparr>)
      exOptions (JNum 1) 2000 exRecord (exState [] []) =
   Some (False, (exState [] [])
                   \<lparr>trace := [ELoad 0 0, EConvert exRecord, ELogFailure exRecord ConvertFailed, ESleep 1000],
                     synchronized := 1\<rparr>) \<and>
   map_option (\<lambda>p. (fst p, added (snd p), trace (snd p), resultDocs (snd p)))
     (processRecord (\<lambda>e ops st. Some ([], st))
        (exLenv\<lparr>menv := exEnv\<lparr>findAllFails := (\<lambda>c. c = memberClass)\<rparr>\<rparr>)
        exCompanyOptions (JNum 1) 2000 exRecord (exState [] [])) =
   Some (False, 1,
         [ELoad 0 0, EConvert exRecord, EMerge exRecord, EMonitor (JNum 1),
          ELogFailure exRecord FindAllFailed, ESleep 1000],
         [document (exResult [] [])])"
proof -
  have h: "\<not> skipped exOptions 2000 (exState [] []) exRecord" by code_simp
  have c: "convert (exLenv\<lparr>convert := (\<lambda>ops r existingDoc tags. Inl ConvertFailed)\<rparr>) exOptions exRecord
             (existingDocOf (exState [] []) exRecord) (allTagElements (exState [] [])) = Inl ConvertFailed"
    by simp
  have l: "added (exState [] []) = 0" "synchronized (exState [] []) = 0" "trace (exState [] []) = []"
    by (simp_all add: exState_def)
  have b: "map_option (\<lambda>p. (fst p, added (snd p), trace (snd p), resultDocs (snd p)))
     (processRecord (\<lambda>e ops st. Some ([], st))
        (exLenv\<lparr>menv := exEnv\<lparr>findAllFails := (\<lambda>c. c = memberClass)\<rparr>\<rparr>)
        exCompanyOptions (JNum 1) 2000 exRecord (exState [] [])) =
   Some (False, 1,
         [ELoad 0 0, EConvert exRecord, EMerge exRecord, EMonitor (JNum 1),
          ELogFailure exRecord FindAllFailed, ESleep 1000],
         [document (exResult [] [])])" by code_simp
  show ?thesis
    using record_failure_handling [OF h, of "exLenv\<lparr>convert := (\<lambda>ops r existingDoc tags. Inl ConvertFailed)\<rparr>"
        ConvertFailed "\<lambda>e ops st. None" "JNum 1"] c l b
    by simp
qed

text \<open>
  Claim C7, as the specification states it, fails for the merge: \<^verbatim>\<open>commit\<close> rejects,
  \<^verbatim>\<open>syncDocument\<close> logs the failure, and the loop counts the record, reports its document
  and does not sleep.
\<close>

theorem merge_failure_counted_counterexample:
  "processRecord (\<lambda>e ops st. None) (exLenv\<lparr>menv := exEnv\<lparr>commitFails := True\<rparr>\<rparr>)
      exOptions (JNum 1) 2000 exRecord (exState [] []) =
   Some (False, (exState [] [])
                   \<lparr>world := (exWorld [])\<lparr>errlog := [CommitFailed]\<rparr>,
                     trace := [ELoad 0 0, EConvert exRecord, EMerge exRecord, EMonitor (JNum 1)],
                     added := 1,
                     resultDocs := [document (exResult [] [])],
                     synchronized := 1\<rparr>)"
  by code_simp


lemma synchronizeUsers_trace:
  "synchronizeUsers n e allEmp users totalUsers next st = Some (out, st') \<Longrightarrow>
   \<exists>d. trace st' = trace st @ d \<and> (\<forall>ev\<in>set d. upFrontEvent ev)"
proof (induction n arbitrary: users totalUsers "next" st)
  case 0
  then show ?case by (auto split: if_splits)
next
  case (Suc n)
  show ?case
  proof (cases "sizeLess (length users) totalUsers")
    case False
    then show ?thesis using Suc.prems by auto
  next
    case True
    let ?st1 = "emit (ERemote (CallUserSearch next)) st"
    show ?thesis
    proof (cases "userSearch e next")
      case (Inl f)
      then show ?thesis using Suc.prems True
        by (auto simp: emit_def upFrontEvent_def Let_def)
    next
      case (Inr result)
      show ?thesis
      proof (cases "syncUsersOfPage e allEmp (presult result) users (world ?st1)")
        case (Thrown f w')
        then show ?thesis using Suc.prems True Inr
          by (auto simp: emit_def upFrontEvent_def Let_def)
      next
        case (Ok users' w')
        then have "synchronizeUsers n e allEmp users' (ptotal result)
                        (case pnext result of None \<Rightarrow> JUndefined | Some x \<Rightarrow> x)
                        (?st1\<lparr>world := w'\<rparr>) = Some (out, st')"
          using Suc.prems True Inr by (simp add: Let_def)
        from Suc.IH [OF this] obtain d where
          "trace st' = trace (?st1\<lparr>world := w'\<rparr>) @ d" "\<forall>ev\<in>set d. upFrontEvent ev" by blast
        then show ?thesis
          by (intro exI [of _ "ERemote (CallUserSearch next) # d"])
             (auto simp: emit_def upFrontEvent_def)
      qed
    qed
  qed
qed

lemma synchronizeUsers_mono:
  "synchronizeUsers m e allEmp users totalUsers next st = Some r \<Longrightarrow> m \<le> n \<Longrightarrow>
   synchronizeUsers n e allEmp users totalUsers next st = Some r"
proof (induction m arbitrary: n users totalUsers "next" st)
  case 0
  then show ?case by (cases n) (auto split: if_splits)
next
  case (Suc m)
  then obtain n' where n: "n = Suc n'" "m \<le> n'" by (cases n) auto
  show ?case
  proof (cases "sizeLess (length users) totalUsers")
    case False
    then show ?thesis using Suc.prems n by auto
  next
    case True
    show ?thesis
    proof (cases "userSearch e next")
      case (Inl f)
      then show ?thesis using Suc.prems True n by (auto simp: Let_def)
    next
      case (Inr result)
      show ?thesis
      proof (cases "syncUsersOfPage e allEmp (presult result) users
                      (world (emit (ERemote (CallUserSearch next)) st))")
        case (Thrown f w')
        then show ?thesis using Suc.prems True Inr n by (auto simp: Let_def)
      next
        case (Ok users' w')
        then have "synchronizeUsers m e allEmp users' (ptotal result)
                        (case pnext result of None \<Rightarrow> JUndefined | Some x \<Rightarrow> x)
                        ((emit (ERemote (CallUserSearch next)) st)\<lparr>world := w'\<rparr>) = Some r"
          using Suc.prems True Inr by (simp add: Let_def)
        from Suc.IH [OF this n(2)] show ?thesis using True Inr Ok n by (simp add: Let_def)
      qed
    qed
  qed
qed

lemma upFront_mono:
  assumes "upFront m e ops st = Some r" "m \<le> n"
  shows "upFront n e ops st = Some r"
proof (cases "commentFields e")
  case (Inl f)
  then show ?thesis using assms by (simp add: upFront_def Let_def)
next
  case cf: (Inr cfr)
  show ?thesis
  proof (cases "ownerTypes e")
    case (Inl f)
    then show ?thesis using assms cf by (simp add: upFront_def Let_def)
  next
    case ot: (Inr otr)
    show ?thesis
    proof (cases "findAllFails (menv e) employeeAccountClass \<or> findAllFails (menv e) entityMappingClass")
      case True
      then show ?thesis using assms cf ot by (auto simp: upFront_def Let_def)
    next
      case False
      let ?st2 = "emit (ERemote CallOwnerTypes) (emit (ERemote CallCommentFields) st)"
      let ?allEmp = "findAllOfClass (menv e) (store (world ?st2)) employeeAccountClass"
      obtain r' where r': "synchronizeUsers m e ?allEmp [] (JNum 1) (JNum 0) ?st2 = Some r'"
        using assms(1) cf ot False
        by (auto simp: upFront_def Let_def split: option.splits)
      have "synchronizeUsers n e ?allEmp [] (JNum 1) (JNum 0) ?st2 = Some r'"
        by (rule synchronizeUsers_mono [OF r' assms(2)])
      then show ?thesis using assms(1) r' cf ot False by (simp add: upFront_def Let_def)
    qed
  qed
qed

lemma upFront_trace:
  assumes "upFront n e ops st = Some (out, st')"
  shows "\<exists>d. trace st' = trace st @ d \<and> (\<forall>ev\<in>set d. upFrontEvent ev)"
proof -
  let ?st1 = "emit (ERemote CallCommentFields) st"
  let ?st2 = "emit (ERemote CallOwnerTypes) ?st1"
  have t1: "trace ?st1 = trace st @ [ERemote CallCommentFields]"
    and t2: "trace ?st2 = trace st @ [ERemote CallCommentFields, ERemote CallOwnerTypes]"
    by (simp_all add: emit_def)
  have u: "upFrontEvent (ERemote CallCommentFields)" "upFrontEvent (ERemote CallOwnerTypes)"
    by (simp_all add: upFrontEvent_def)
  show ?thesis
  proof (cases "commentFields e")
    case (Inl f)
    then have "st' = ?st1" using assms by (simp add: upFront_def Let_def)
    then show ?thesis using t1 u by auto
  next
    case cf: (Inr cfr)
    show ?thesis
    proof (cases "ownerTypes e")
      case (Inl f)
      then have "st' = ?st2" using assms cf by (simp add: upFront_def Let_def)
      then show ?thesis using t2 u by auto
    next
      case ot: (Inr otr)
      show ?thesis
      proof (cases "findAllFails (menv e) employeeAccountClass \<or> findAllFails (menv e) entityMappingClass")
        case True
        then have "st' = ?st2" using assms cf ot by (auto simp: upFront_def Let_def)
        then show ?thesis using t2 u by auto
      next
        case False
        let ?allEmp = "findAllOfClass (menv e) (store (world ?st2)) employeeAccountClass"
        obtain out' where "synchronizeUsers n e ?allEmp [] (JNum 1) (JNum 0) ?st2 = Some (out', st')"
          using assms cf ot False
          by (auto simp: upFront_def Let_def split: option.splits sum.splits)
        from synchronizeUsers_trace [OF this] obtain d where
          "trace st' = trace ?st2 @ d" "\<forall>ev\<in>set d. upFrontEvent ev" by blast
        then show ?thesis using t2 u
          by (intro exI [of _ "[ERemote CallCommentFields, ERemote CallOwnerTypes] @ d"]) auto
      qed
    qed
  qed
qed

lemma upFront_keeps:
  assumes "upFront n e ops st = Some (Inr ops', st')"
  shows "space ops' = space ops \<and> mapping ops' = mapping ops"
  using assms
  by (auto simp: upFront_def Let_def split: option.splits sum.splits if_splits)

lemma doPerformSync_guard:
  assumes "space ops = JUndefined \<or> mfields (mapping ops) = None"
  shows "doPerformSync n e ops st = Some ([], st)"
  using assms by (cases n) (auto simp: doPerformSyncWith_def)

text \<open>The users of a page, when no write rejects: every user of the page is in the map.\<close>

lemma syncUsersOfPage_ok:
  assumes "\<forall>t. \<not> writeFails e t"
  shows "\<exists>users' w'. syncUsersOfPage e allEmp us users w = Ok users' w' \<and>
           fst ` set users' = fst ` set users \<union> (\<lambda>u. getField u ''ID'') ` set us \<and>
           (distinct (map fst users) \<longrightarrow> distinct (map fst users'))"
proof (induction us arbitrary: users w)
  case Nil
  then show ?case by simp
next
  case (Cons u us)
  define acc where "acc = (case find (\<lambda>it. strictEq (getField it ''email'') (getField u ''EMAIL'')) allEmp of
             Some acc \<Rightarrow> getField acc ''_id''
           | None \<Rightarrow> JUndefined)"
  have wn: "writeNow e t w0 = Ok () (w0\<lparr>store := applyTx t (store w0), history := history w0 @ [t]\<rparr>)"
    for t w0 using assms by (simp add: writeNow_def)
  have "\<exists>a w1. syncUsersOfPage e allEmp (u # us) users w =
                 syncUsersOfPage e allEmp us (AList.update (getField u ''ID'') a users) w1"
    unfolding syncUsersOfPage.simps acc_def [symmetric]
    by (cases acc) (auto simp: Let_def wn)
  then obtain a w1 where s: "syncUsersOfPage e allEmp (u # us) users w =
                 syncUsersOfPage e allEmp us (AList.update (getField u ''ID'') a users) w1" by blast
  from Cons [of "AList.update (getField u ''ID'') a users" w1] obtain users' w' where
    r: "syncUsersOfPage e allEmp us (AList.update (getField u ''ID'') a users) w1 = Ok users' w'"
       "fst ` set users' = fst ` set (AList.update (getField u ''ID'') a users) \<union>
          (\<lambda>u. getField u ''ID'') ` set us"
       "distinct (map fst (AList.update (getField u ''ID'') a users)) \<longrightarrow> distinct (map fst users')"
    by blast
  show ?case
    unfolding s using r by (auto simp: dom_update distinct_update)
qed

lemma upFront_one_page:
  assumes "commentFields e = Inr cf" "ownerTypes e = Inr ot"
      and "\<not> findAllFails (menv e) employeeAccountClass" "\<not> findAllFails (menv e) entityMappingClass"
      and "userSearch e (JNum 0) = Inr pg" "\<forall>t. \<not> writeFails e t"
      and "\<not> sizeLess (length (remdups (map (\<lambda>u. getField u ''ID'') (presult pg)))) (ptotal pg)"
  shows "\<exists>ops' st1. upFront (Suc n) e ops st = Some (Inr ops', st1)"
proof -
  let ?st2 = "emit (ERemote CallOwnerTypes) (emit (ERemote CallCommentFields) st)"
  let ?st3 = "emit (ERemote (CallUserSearch (JNum 0))) ?st2"
  let ?allEmp = "findAllOfClass (menv e) (store (world ?st2)) employeeAccountClass"
  from syncUsersOfPage_ok [OF assms(6), of ?allEmp "presult pg" "[]" "world ?st3"]
  obtain users' w' where
    r: "syncUsersOfPage e ?allEmp (presult pg) [] (world ?st3) = Ok users' w'"
       "fst ` set users' = (\<lambda>u. getField u ''ID'') ` set (presult pg)"
       "distinct (map fst users')" by auto
  have "length users' = card (fst ` set users')" using distinct_card [OF r(3)] by simp
  also have "\<dots> = card (set (map (\<lambda>u. getField u ''ID'') (presult pg)))" using r(2) by simp
  also have "\<dots> = length (remdups (map (\<lambda>u. getField u ''ID'') (presult pg)))"
    by (simp add: length_remdups_card_conv)
  finally have len: "\<not> sizeLess (length users') (ptotal pg)" using assms(7) by simp
  have fin: "synchronizeUsers n e ?allEmp users' (ptotal pg) nx st' = Some (Inr users', st')" for nx st'
    using len by (cases n) simp_all
  have "synchronizeUsers (Suc n) e ?allEmp [] (JNum 1) (JNum 0) ?st2 =
          Some (Inr users', ?st3\<lparr>world := w'\<rparr>)"
    using assms(5) r(1) fin by (simp add: Let_def)
  then show ?thesis
    using assms(1-4) by (simp add: upFront_def Let_def)
qed

text \<open>
  Claim C10, as the code has it. When the target space is undefined or the mapping has no
  looked-up field mappings, \<^verbatim>\<open>doPerformSync\<close> returns the empty list at once and changes
  nothing, and \<^verbatim>\<open>performSynchronization\<close> is its up-front phase followed by the empty
  list: if that phase rejects, so does the whole; if it does not end (the map of users
  never reaches the total the remote side reports), neither does the whole; if it returns,
  the result is the empty list and the state is the one the up-front phase left. What the
  up-front phase shows is only its own remote calls (the fields of comments, the owner
  types, the search of users): no list page is fetched, no record converted or merged. A
  bound on the pages of users that is enough stays enough when it is raised. The phase
  returns, and with it the empty list, when the two remote calls and the two queries of
  the store return, no write rejects, and the first page of users holds as many different
  users as the remote side reports in total.
\<close>

theorem no_space_or_fields_returns_empty:
  assumes "space ops = JUndefined \<or> mfields (mapping ops) = None"
  shows "doPerformSync n e ops st = Some ([], st) \<and>
         performSynchronization n e ops st =
           (case upFront n e ops st of
              None \<Rightarrow> None
            | Some (Inl f, st1) \<Rightarrow> Some (Inl f, st1)
            | Some (Inr ops', st1) \<Rightarrow> Some (Inr [], st1)) \<and>
         (\<forall>out st1. upFront n e ops st = Some (out, st1) \<longrightarrow>
            (\<exists>d. trace st1 = trace st @ d \<and> (\<forall>ev\<in>set d. upFrontEvent ev))) \<and>
         (\<forall>m r. upFront m e ops st = Some r \<and> m \<le> n \<longrightarrow> upFront n e ops st = Some r) \<and>
         (commentFields e = Inr cf \<and> ownerTypes e = Inr ot \<and>
          \<not> findAllFails (menv e) employeeAccountClass \<and>
          \<not> findAllFails (menv e) entityMappingClass \<and>
          userSearch e (JNum 0) = Inr pg \<and> (\<forall>t. \<not> writeFails e t) \<and>
          \<not> sizeLess (length (remdups (map (\<lambda>u. getField u ''ID'') (presult pg)))) (ptotal pg) \<longrightarrow>
            (\<exists>st1. performSynchronization (Suc n) e ops st = Some (Inr [], st1)))"
proof -
  have 1: "doPerformSync n e ops st = Some ([], st)" by (rule doPerformSync_guard [OF assms])
  have 2: "performSynchronization k e ops st =
           (case upFront k e ops st of
              None \<Rightarrow> None
            | Some (Inl f, st1) \<Rightarrow> Some (Inl f, st1)
            | Some (Inr ops', st1) \<Rightarrow> Some (Inr [], st1))" for k
  proof (cases "upFront k e ops st")
    case None
    then show ?thesis by (simp add: performSynchronization_def)
  next
    case (Some p)
    obtain out st1 where p: "p = (out, st1)" by (cases p)
    show ?thesis
    proof (cases out)
      case (Inl f)
      then show ?thesis using Some p by (simp add: performSynchronization_def)
    next
      case (Inr ops')
      have "space ops' = JUndefined \<or> mfields (mapping ops') = None"
        using upFront_keeps [of k e ops st ops' st1] Some p Inr assms by simp
      then have "doPerformSync k e ops' st1 = Some ([], st1)" by (rule doPerformSync_guard)
      then show ?thesis using Some p Inr by (simp add: performSynchronization_def)
    qed
  qed
  have 3: "\<forall>m r. upFront m e ops st = Some r \<and> m \<le> n \<longrightarrow> upFront n e ops st = Some r"
    using upFront_mono by blast
  have 4: "\<exists>st1. performSynchronization (Suc n) e ops st = Some (Inr [], st1)"
    if "commentFields e = Inr cf \<and> ownerTypes e = Inr ot \<and>
          \<not> findAllFails (menv e) employeeAccountClass \<and>
          \<not> findAllFails (menv e) entityMappingClass \<and>
          userSearch e (JNum 0) = Inr pg \<and> (\<forall>t. \<not> writeFails e t) \<and>
          \<not> sizeLess (length (remdups (map (\<lambda>u. getField u ''ID'') (presult pg)))) (ptotal pg)"
  proof -
    from that upFront_one_page [of e cf ot pg n ops st] obtain ops' st1 where
      "upFront (Suc n) e ops st = Some (Inr ops', st1)" by blast
    then show ?thesis using 2 [of "Suc n"] by simp
  qed
  from 1 2 [of n] 3 4 upFront_trace [of n e ops st] show ?thesis by blast
qed

theorem no_space_or_fields_returns_empty_witness:
  "doPerformSync 1 exLenv (exOptions\<lparr>space := JUndefined\<rparr>) (exState [] []) =
     Some ([], exState [] []) \<and>
   performSynchronization 1 exLenv (exOptions\<lparr>space := JUndefined\<rparr>) (exState [] []) =
     Some (Inr [], (exState [] [])
                     \<lparr>trace := [ERemote CallCommentFields, ERemote CallOwnerTypes,
                                 ERemote (CallUserSearch (JNum 0))]\<rparr>) \<and>
   (\<exists>st1. performSynchronization 8 exLenv (exOptions\<lparr>space := JUndefined\<rparr>) (exState [] []) =
            Some (Inr [], st1))"
proof -
  have h: "space (exOptions\<lparr>space := JUndefined\<rparr>) = JUndefined \<or>
           mfields (mapping (exOptions\<lparr>space := JUndefined\<rparr>)) = None" by simp
  have p: "performSynchronization 1 exLenv (exOptions\<lparr>space := JUndefined\<rparr>) (exState [] []) =
     Some (Inr [], (exState [] [])
                     \<lparr>trace := [ERemote CallCommentFields, ERemote CallOwnerTypes,
                                 ERemote (CallUserSearch (JNum 0))]\<rparr>)"
    by code_simp
  have c: "commentFields exLenv = Inr []" "ownerTypes exLenv = Inr []"
    "\<not> findAllFails (menv exLenv) employeeAccountClass"
    "\<not> findAllFails (menv exLenv) entityMappingClass"
    "userSearch exLenv (JNum 0) = Inr \<lparr>presult = [], ptotal = JNum 0, pnext = None\<rparr>"
    "\<forall>t. \<not> writeFails exLenv t"
    "\<not> sizeLess (length (remdups (map (\<lambda>u. getField u ''ID'')
          (presult \<lparr>presult = [], ptotal = JNum 0, pnext = None\<rparr>))))
        (ptotal \<lparr>presult = [], ptotal = JNum 0, pnext = None\<rparr>)"
    by (simp_all add: exLenv_def exEnv_def)
  have s: "Suc 7 = 8" by simp
  show ?thesis
    using no_space_or_fields_returns_empty [OF h, of 1 exLenv "exState [] []"]
      no_space_or_fields_returns_empty [OF h, of 7 exLenv "exState [] []" "[]" "[]"
        "\<lparr>presult = [], ptotal = JNum 0, pnext = None\<rparr>"] p c
    unfolding s by simp
qed

text \<open>
  Claim C10, as the specification states it, fails when a call of the up-front phase
  rejects: with the space undefined and the fetch of the comment fields rejecting,
  \<^verbatim>\<open>performSynchronization\<close> rejects and returns no list.
\<close>

theorem up_front_rejects_counterexample:
  "space (exOptions\<lparr>space := JUndefined\<rparr>) = JUndefined \<and>
   performSynchronization 1 (exLenv\<lparr>commentFields := Inl RemoteFailed\<rparr>)
     (exOptions\<lparr>space := JUndefined\<rparr>) (exState [] []) =
   Some (Inl RemoteFailed, (exState [] [])\<lparr>trace := [ERemote CallCommentFields]\<rparr>)"
  by code_simp


section \<open>Properties of the markup translator\<close>

lemma notBracket_open: "\<not> notBracket CHR ''[''"
  by (simp add: notBracket_def)

lemma notBracket_close: "\<not> notBracket CHR '']''"
  by (simp add: notBracket_def)

lemma matchTag_tag:
  assumes "t \<noteq> []" "\<forall>c\<in>set t. notBracket c"
  shows "matchTag (t @ CHR '']'' # post) = Some (t, post)"
proof -
  have f: "takeWhile notBracket (t @ CHR '']'' # post) = t"
    "dropWhile notBracket (t @ CHR '']'' # post) = CHR '']'' # post"
    using assms by (simp_all add: notBracket_close)
  show ?thesis unfolding matchTag_def Let_def f using assms(1) by simp
qed

text \<open>A match attempt never looks past the next opening bracket.\<close>

lemma matchTag_append:
  "matchTag (s @ CHR ''['' # u) =
    (case matchTag s of None \<Rightarrow> None | Some (a, r) \<Rightarrow> Some (a, r @ CHR ''['' # u))"
proof (cases "\<forall>c\<in>set s. notBracket c")
  case True
  then have f: "takeWhile notBracket s = s" "dropWhile notBracket s = []"
    "takeWhile notBracket (s @ CHR ''['' # u) = s"
    "dropWhile notBracket (s @ CHR ''['' # u) = CHR ''['' # u"
    by (simp_all add: notBracket_open)
  show ?thesis
    unfolding matchTag_def Let_def f by simp
next
  case False
  then obtain c where c: "c \<in> set s" "\<not> notBracket c" by blast
  then have "takeWhile notBracket (s @ CHR ''['' # u) = takeWhile notBracket s"
    "dropWhile notBracket (s @ CHR ''['' # u) = dropWhile notBracket s @ CHR ''['' # u"
    by (simp_all add: takeWhile_append1 dropWhile_append1)
  moreover have "dropWhile notBracket s \<noteq> []" using c by auto
  ultimately show ?thesis
    by (auto simp: matchTag_def Let_def split: list.splits)
qed

lemma rewriteTags_tag:
  assumes "t \<noteq> []" "\<forall>c\<in>set t. notBracket c"
  shows "rewriteTags (pre @ CHR ''['' # t @ CHR '']'' # post) =
         rewriteTags pre @ replaceTag t @ rewriteTags post"
proof (induction pre rule: rewriteTags.induct)
  case 1
  show ?case using assms by (simp add: matchTag_tag)
next
  case (2 c s)
  show ?case
  proof (cases "c = CHR ''[''")
    case False
    with 2 show ?thesis by simp
  next
    case True
    show ?thesis
    proof (cases "matchTag s")
      case None
      with True 2 show ?thesis by (simp add: matchTag_append)
    next
      case (Some p)
      obtain a r where p: "p = (a, r)" by (cases p)
      with Some True 2 show ?thesis by (simp add: matchTag_append)
    qed
  qed
qed

lemma replaceNewlines_append:
  "replaceNewlines (a @ b) = replaceNewlines a @ replaceNewlines b"
  by (simp add: replaceNewlines_def)

lemma replaceNewlines_id: "newline \<notin> set t \<Longrightarrow> replaceNewlines t = t"
  by (induction t) (auto simp: replaceNewlines_def)

lemma replaceNewlines_brackets:
  "replaceNewlines (CHR ''['' # s) = CHR ''['' # replaceNewlines s"
  "replaceNewlines (CHR '']'' # s) = CHR '']'' # replaceNewlines s"
  by (simp_all add: replaceNewlines_def newline_def)

lemma replaceTag_unknown: "\<not> recognized t \<Longrightarrow> replaceTag t = ''<'' @ t @ ''>''"
  by (simp add: recognized_def replaceTag_def)

text \<open>
  Claim C8, as the code has it. The translator maps the input
  \<^verbatim>\<open>Hello[URL=http://x]click[/URL]\nworld\<close> to
  \<^verbatim>\<open>Hello<a href="http://x">click</a>\n</br>world\<close>: the first \<^verbatim>\<open>replaceAll\<close>
  writes the break tag after the newline, not before it.
\<close>

theorem processComment_example:
  "processComment (''Hello[URL=http://x]click[/URL]'' @ [newline] @ ''world'') =
   ''Hello<a href='' @ [dquote] @ ''http://x'' @ [dquote] @ ''>click</a>'' @ [newline] @ ''</br>world''"
  by code_simp

text \<open>
  Claim C8, as the specification states it, fails: the output is not
  \<^verbatim>\<open>Hello<a href="http://x">click</a></br>\nworld\<close>.
\<close>

theorem processComment_example_counterexample:
  "processComment (''Hello[URL=http://x]click[/URL]'' @ [newline] @ ''world'') \<noteq>
   ''Hello<a href='' @ [dquote] @ ''http://x'' @ [dquote] @ ''>click</a></br>'' @ [newline] @ ''world''"
  by code_simp

lemma replaceNewlines_set: "set (replaceNewlines t) \<subseteq> set t \<union> set ''</br>''"
proof -
  define br where "br = ''</br>''"
  have "set (concat (map (\<lambda>c. if c = newline then newline # br else [c]) t)) \<subseteq> set t \<union> set br"
    by (induction t) auto
  then show ?thesis by (simp add: replaceNewlines_def br_def)
qed

lemma replaceNewlines_notBracket:
  assumes "\<forall>c\<in>set t. notBracket c"
  shows "\<forall>c\<in>set (replaceNewlines t). notBracket c"
proof
  fix c assume "c \<in> set (replaceNewlines t)"
  then have "c \<in> set t \<or> c \<in> set ''</br>''" using replaceNewlines_set [of t] by blast
  moreover have "\<forall>c\<in>set ''</br>''. notBracket c" by (simp add: notBracket_def)
  ultimately show "notBracket c" using assms by blast
qed

lemma replaceNewlines_nonempty: "t \<noteq> [] \<Longrightarrow> replaceNewlines t \<noteq> []"
  by (cases t) (simp_all add: replaceNewlines_def)

text \<open>
  Claim C9, as the code has it. A bracket tag is what the regular expression matches: an
  opening bracket, a non-empty content \<open>t\<close> free of brackets, a closing bracket. The
  content is recognised by the tests of the callback, in their order: it starts with
  \<^verbatim>\<open>/URL\<close> or \<^verbatim>\<open>URL=\<close>, or it holds \<^verbatim>\<open>FONT\<close>, \<^verbatim>\<open>SIZE\<close>, \<^verbatim>\<open>COLOR\<close>, \<^verbatim>\<open>IMG\<close> or
  \<^verbatim>\<open>TABLE\<close> anywhere. When none of them recognises \<open>t\<close>, the tag rewrite (lines 336-380)
  emits \<^verbatim>\<open><t>\<close> wherever the tag stands, and leaves the rewriting of the text before and
  after it as it is. The same holds for the whole translator when \<open>t\<close> holds no newline.
  A newline inside the brackets is first followed by the break tag (line 335), and the tag
  rewrite sees that content: the translator then emits the content with the break tags
  between the angle brackets, when the tests do not recognise it.
\<close>

theorem unknown_tag_passthrough:
  assumes "t \<noteq> []" and "\<forall>c\<in>set t. notBracket c" and "\<not> recognized t"
  shows "rewriteTags (pre @ ''['' @ t @ '']'' @ post) =
           rewriteTags pre @ ''<'' @ t @ ''>'' @ rewriteTags post \<and>
         (newline \<notin> set t \<longrightarrow>
           processComment (pre @ ''['' @ t @ '']'' @ post) =
             processComment pre @ ''<'' @ t @ ''>'' @ processComment post) \<and>
         (\<not> recognized (replaceNewlines t) \<longrightarrow>
           processComment (pre @ ''['' @ t @ '']'' @ post) =
             processComment pre @ ''<'' @ replaceNewlines t @ ''>'' @ processComment post)"
proof -
  have r: "rewriteTags (p @ ''['' @ t @ '']'' @ q) = rewriteTags p @ ''<'' @ t @ ''>'' @ rewriteTags q"
    for p q
    using rewriteTags_tag [OF assms(1,2), of p q] replaceTag_unknown [OF assms(3)] by simp
  have n: "processComment (pre @ ''['' @ t @ '']'' @ post) =
          processComment pre @ ''<'' @ replaceNewlines t @ ''>'' @ processComment post"
    if "\<not> recognized (replaceNewlines t)"
    using rewriteTags_tag [OF replaceNewlines_nonempty [OF assms(1)]
        replaceNewlines_notBracket [OF assms(2)], of "replaceNewlines pre" "replaceNewlines post"]
      replaceTag_unknown [OF that]
    by (simp add: processComment_def replaceNewlines_append replaceNewlines_brackets)
  have "processComment (pre @ ''['' @ t @ '']'' @ post) =
          processComment pre @ ''<'' @ t @ ''>'' @ processComment post"
    if "newline \<notin> set t"
    using n assms(3) replaceNewlines_id [OF that] by simp
  with r n show ?thesis by blast
qed

theorem unknown_tag_passthrough_witness:
  "rewriteTags ''a[B]c[/B]'' = ''a<B>c</B>'' \<and> processComment ''a[B]c[/B]'' = ''a<B>c</B>'' \<and>
   processComment (''a[B'' @ [newline] @ ''x]c'') = ''a<B'' @ [newline] @ ''</br>x>c''"
proof -
  have h1: "''B'' \<noteq> []" "''B'' @ [newline] @ ''x'' \<noteq> []" by simp_all
  have h2: "\<forall>c\<in>set ''B''. notBracket c" "\<forall>c\<in>set (''B'' @ [newline] @ ''x''). notBracket c"
    by (simp_all add: notBracket_def newline_def)
  have h3: "\<not> recognized ''B''" "\<not> recognized (''B'' @ [newline] @ ''x'')"
    "\<not> recognized (replaceNewlines (''B'' @ [newline] @ ''x''))" by code_simp+
  have h4: "newline \<notin> set ''B''" by (simp add: newline_def)
  have e: "rewriteTags ''c[/B]'' = ''c</B>''" "processComment ''c[/B]'' = ''c</B>''"
    "rewriteTags ''a'' = ''a''" "processComment ''a'' = ''a''" "processComment ''c'' = ''c''"
    "replaceNewlines (''B'' @ [newline] @ ''x'') = ''B'' @ [newline] @ ''</br>x''"
    by code_simp+
  show ?thesis
    using unknown_tag_passthrough [OF h1(1) h2(1) h3(1), of "''a''" "''c[/B]''"]
      unknown_tag_passthrough [OF h1(2) h2(2) h3(2), of "''a''" "''c''"] h3(3) h4 e by simp
qed

text \<open>
  Claim C9, as the specification states it for every bracket tag, fails. The content
  \<^verbatim>\<open>a\nb\<close> is recognised by no test of the callback, and the translator does not emit
  \<^verbatim>\<open><a\nb>\<close> for it: the break tag stands after the newline. And a content that only
  holds the name of a rule is rewritten by that rule: \<^verbatim>\<open>[NOTABLE]\<close> becomes \<^verbatim>\<open><table>\<close>.
\<close>

theorem unknown_tag_newline_counterexample:
  "\<not> recognized (''a'' @ [newline] @ ''b'') \<and>
   processComment (''['' @ (''a'' @ [newline] @ ''b'') @ '']'') \<noteq> ''<'' @ (''a'' @ [newline] @ ''b'') @ ''>'' \<and>
   processComment (''['' @ (''a'' @ [newline] @ ''b'') @ '']'') = ''<a'' @ [newline] @ ''</br>b>'' \<and>
   processComment ''[NOTABLE]'' = ''<table>''"
  by code_simp

end
